theory Spec2Isabelle
  imports Complex_Main
begin

section \<open>Frames\<close>

text \<open>
  A pandas DataFrame is modelled by its column index and its rows. A row is a record
  with one field for every column the base frame ever carries; a column that is not in
  the index of a frame is not part of that frame, whatever its field holds.
  Timestamps are \<open>pd.Timestamp\<close> values built from epoch milliseconds: they are
  integers (milliseconds). Speeds and coordinates are Python floats; they are compared
  and never computed with, so they are modelled by the real numbers they denote.
  A cell of a column that came out of the left join is \<open>None\<close> where pandas holds NaN.
\<close>

record base_row =
  timestamp :: int
  speed :: real
  latitude :: real
  longitude :: real
  right_blinker :: int
  left_blinker :: int
  stop_segment :: int
  is_stopped :: int
  time_stamp :: "int option"
  status_management :: "int option"
  change_flag :: "int option"
  status_change :: string
  event_type :: int
  label :: int

record frame =
  columns :: "string list"
  rows :: "base_row list"

text \<open>\<open>df[c] = ...\<close>: an existing column is overwritten, a new one is appended.\<close>

definition assign_column :: "string \<Rightarrow> string list \<Rightarrow> string list" where
  "assign_column c cols = (if c \<in> set cols then cols else cols @ [c])"

text \<open>\<open>df.drop(columns=[col for col in cs if col in df.columns])\<close>\<close>

definition drop_columns :: "string list \<Rightarrow> string list \<Rightarrow> string list" where
  "drop_columns cs cols = filter (\<lambda>c. c \<notin> set [col \<leftarrow> cs. col \<in> set cols]) cols"

text \<open>\<open>Timedelta.total_seconds()\<close> of a difference of two millisecond timestamps.\<close>

definition total_seconds :: "int \<Rightarrow> real" where
  "total_seconds d = real_of_int d / 1000"

text \<open>\<open>xs.iloc[start:end]\<close> for non-negative bounds.\<close>

definition iloc_slice :: "'a list \<Rightarrow> nat \<Rightarrow> nat \<Rightarrow> 'a list" where
  "iloc_slice xs start end = take (end - start) (drop start xs)"

text \<open>\<open>df.loc[indices, ...] = ...\<close> where the indices are the positions \<open>start..end-1\<close>.\<close>

definition loc_update :: "nat \<Rightarrow> nat \<Rightarrow> ('a \<Rightarrow> 'a) \<Rightarrow> 'a list \<Rightarrow> 'a list" where
  "loc_update start end f xs =
     map (\<lambda>(i, r). if start \<le> i \<and> i < end then f r else r) (zip [0..<length xs] xs)"

section \<open>Record parser: \<open>process_json_file\<close>\<close>

text \<open>
  The input is the decoded JSON document. A field of a document or of a sample is
  classified by what the conversion applied to it does: the key is absent (\<open>get\<close>
  returns the default), the conversion raises (\<open>int\<close>, \<open>float\<close>, \<open>json.loads\<close>,
  \<open>sum\<close>, \<open>strptime\<close>), or it yields a value.
\<close>

datatype 'a field = Missing | Malformed | Value 'a

datatype error = BadRecordDateTime | BadTimeStamp | BadNumber

text \<open>\<open>record.get(key, default)\<close>, with the default already converted.\<close>

fun get_or :: "'a field \<Rightarrow> 'a \<Rightarrow> 'a field" where
  "get_or Missing d = Value d"
| "get_or Malformed d = Malformed"
| "get_or (Value v) d = Value v"

record sample =
  timeStamp :: "int field"
  speed_raw :: "real field"
  accX :: "real list field"
  accY :: "real list field"
  accZ :: "real list field"
  radX :: "real list field"
  radY :: "real list field"
  radZ :: "real list field"
  vehicleInformationRightBlinker :: "int list field"
  vehicleInformationLeftBlinker :: "int list field"
  latitude_raw :: "real field"
  longitude_raw :: "real field"
  altitude :: "real field"
  heading :: "real field"

record capture =
  imei :: string
  recordDateTime :: "unit field"
  data :: "sample list option"

datatype document = Unreadable | Document capture

text \<open>A row of the acceleration frame; \<open>None\<close> is \<open>np.nan\<close>.\<close>

record accel_row =
  sample_timestamp :: int
  acc_x :: "real option"
  acc_y :: "real option"
  acc_z :: "real option"
  rad_x :: "real option"
  rad_y :: "real option"
  rad_z :: "real option"

text \<open>
  \<open>strptime\<close> of the document's \<open>recordDateTime\<close> and \<open>int\<close> of the sample's
  \<open>timeStamp\<close>; the result is the timestamp in milliseconds. The default of a document
  without \<open>recordDateTime\<close> is the empty string, which \<open>strptime\<close> rejects, so an
  absent \<open>recordDateTime\<close> raises as a malformed one does.
\<close>

definition parse_timestamp :: "unit field \<Rightarrow> int field \<Rightarrow> error + int" where
  "parse_timestamp record_datetime timestamp_str =
     (case record_datetime of
        Value base_date \<Rightarrow>
          (case timestamp_str of
             Value timestamp_ms \<Rightarrow> Inr timestamp_ms
           | _ \<Rightarrow> Inl BadTimeStamp)
      | _ \<Rightarrow> Inl BadRecordDateTime)"

text \<open>\<open>float(...)\<close>\<close>

definition py_float :: "real field \<Rightarrow> error + real" where
  "py_float x = (case x of Value v \<Rightarrow> Inr v | _ \<Rightarrow> Inl BadNumber)"

text \<open>The \<open>try\<close> of \<open>extract_array_values\<close> returns the empty list on any failure.\<close>

definition extract_array_values :: "real list field \<Rightarrow> real list" where
  "extract_array_values array_str = (case array_str of Value values \<Rightarrow> values | _ \<Rightarrow> [])"

text \<open>Both blinkers are 0 as soon as one of the two arrays fails.\<close>

definition blinkers :: "int list field \<Rightarrow> int list field \<Rightarrow> int \<times> int" where
  "blinkers right_str left_str =
     (case right_str of
        Value right_blinker_array \<Rightarrow>
          (case left_str of
             Value left_blinker_array \<Rightarrow>
               (if sum_list right_blinker_array \<noteq> 0 then 1 else 0,
                if sum_list left_blinker_array \<noteq> 0 then 1 else 0)
           | _ \<Rightarrow> (0, 0))
      | _ \<Rightarrow> (0, 0))"

definition nth_or_nan :: "real list \<Rightarrow> nat \<Rightarrow> real option" where
  "nth_or_nan xs i = (if i < length xs then Some (xs ! i) else None)"

text \<open>The inner loop over \<open>range(max_length)\<close>.\<close>

definition motion_rows ::
  "int \<Rightarrow> real list \<Rightarrow> real list \<Rightarrow> real list \<Rightarrow> real list \<Rightarrow> real list \<Rightarrow> real list
     \<Rightarrow> accel_row list" where
  "motion_rows ts ax ay az rx ry rz =
     (let max_length =
            max (length ax) (max (length ay) (max (length az)
              (max (length rx) (max (length ry) (max (length rz) 1)))))
      in map (\<lambda>i. \<lparr>sample_timestamp = ts + int i * 10,
                    acc_x = nth_or_nan ax i, acc_y = nth_or_nan ay i, acc_z = nth_or_nan az i,
                    rad_x = nth_or_nan rx i, rad_y = nth_or_nan ry i, rad_z = nth_or_nan rz i\<rparr>)
           [0..<max_length])"

text \<open>
  The body of the loop over the samples: the base row and the acceleration rows of one
  sample, or the exception that leaves the loop. The columns that later stages add to the
  base frame hold their defaults.
\<close>

definition process_record :: "unit field \<Rightarrow> sample \<Rightarrow> error + (base_row \<times> accel_row list)" where
  "process_record record_datetime r =
     (case parse_timestamp record_datetime (get_or (timeStamp r) 0) of
        Inl e \<Rightarrow> Inl e
      | Inr ts \<Rightarrow>
     (case py_float (get_or (speed_raw r) 0) of
        Inl e \<Rightarrow> Inl e
      | Inr spd \<Rightarrow>
     (let ax = extract_array_values (get_or (accX r) []);
          ay = extract_array_values (get_or (accY r) []);
          az = extract_array_values (get_or (accZ r) []);
          rx = extract_array_values (get_or (radX r) []);
          ry = extract_array_values (get_or (radY r) []);
          rz = extract_array_values (get_or (radZ r) []);
          bl = blinkers (get_or (vehicleInformationRightBlinker r) [0])
                        (get_or (vehicleInformationLeftBlinker r) [0])
      in
     (case py_float (get_or (latitude_raw r) 0) of
        Inl e \<Rightarrow> Inl e
      | Inr lat \<Rightarrow>
     (case py_float (get_or (longitude_raw r) 0) of
        Inl e \<Rightarrow> Inl e
      | Inr lon \<Rightarrow>
     (case py_float (get_or (altitude r) 0) of
        Inl e \<Rightarrow> Inl e
      | Inr alt \<Rightarrow>
     (case py_float (get_or (heading r) 0) of
        Inl e \<Rightarrow> Inl e
      | Inr hdg \<Rightarrow>
          Inr (\<lparr>timestamp = ts, speed = spd, latitude = lat, longitude = lon,
                right_blinker = fst bl, left_blinker = snd bl,
                stop_segment = 0, is_stopped = 0, time_stamp = None,
                status_management = None, change_flag = None, status_change = [],
                event_type = 0, label = 0\<rparr>,
               motion_rows ts ax ay az rx ry rz))))))))"

text \<open>The loop over \<open>data['data']\<close>; an exception in one sample ends it.\<close>

fun process_records ::
  "unit field \<Rightarrow> sample list \<Rightarrow> base_row list \<times> accel_row list
     \<Rightarrow> error + (base_row list \<times> accel_row list)" where
  "process_records record_datetime [] acc = Inr acc"
| "process_records record_datetime (r # rs) acc =
     (case process_record record_datetime r of
        Inl e \<Rightarrow> Inl e
      | Inr (base_row, accel) \<Rightarrow>
          process_records record_datetime rs (fst acc @ [base_row], snd acc @ accel))"

definition empty_frame :: frame where
  "empty_frame = \<lparr>columns = [], rows = []\<rparr>"

definition base_columns :: "string list" where
  "base_columns = [''timestamp'', ''speed'', ''latitude'', ''longitude'',
                   ''right_blinker'', ''left_blinker'']"

text \<open>
  The whole function: every exception is caught at the level of the file, and the result
  is then a pair of empty frames.
\<close>

definition process_json_file :: "document \<Rightarrow> frame \<times> accel_row list" where
  "process_json_file doc =
     (case doc of
        Unreadable \<Rightarrow> (empty_frame, [])
      | Document d \<Rightarrow>
          (case data d of
             None \<Rightarrow> (empty_frame, [])
           | Some records \<Rightarrow>
               if records = [] then (empty_frame, [])
               else (case process_records (recordDateTime d) records ([], []) of
                       Inl e \<Rightarrow> (empty_frame, [])
                     | Inr (base_rows, accel_rows) \<Rightarrow>
                         (\<lparr>columns = base_columns, rows = base_rows\<rparr>, accel_rows))))"

section \<open>Stop-segment detector: \<open>identify_stop_segments\<close>\<close>

definition is_low_speed :: "real \<Rightarrow> base_row \<Rightarrow> bool" where
  "is_low_speed stop_speed_threshold r = (speed r < stop_speed_threshold)"

definition is_zero_speed :: "base_row \<Rightarrow> bool" where
  "is_zero_speed r = (speed r = 0)"

text \<open>
  The state of the scan is \<open>(in_low_speed, start_idx, low_speed_groups)\<close>.
  The first half of the loop body closes an open run at a gap of more than 60 seconds.
\<close>

type_synonym scan_state = "bool \<times> nat option \<times> (nat \<times> nat) list"

definition gap_step :: "base_row list \<Rightarrow> nat \<Rightarrow> scan_state \<Rightarrow> scan_state" where
  "gap_step car_data i st =
     (case st of (in_low_speed, start_idx, low_speed_groups) \<Rightarrow>
        if i > 0 then
          (let time_gap = total_seconds (timestamp (car_data ! i) - timestamp (car_data ! (i - 1)))
           in if time_gap > 60 \<and> in_low_speed then
                (False, None,
                 (case start_idx of
                    Some s \<Rightarrow> low_speed_groups @ [(s, i)]
                  | None \<Rightarrow> low_speed_groups))
              else st)
        else st)"

text \<open>The second half opens a run at a low-speed row and closes it at a row that is not.\<close>

definition speed_step :: "real \<Rightarrow> base_row list \<Rightarrow> nat \<Rightarrow> scan_state \<Rightarrow> scan_state" where
  "speed_step stop_speed_threshold car_data i st =
     (case st of (in_low_speed, start_idx, low_speed_groups) \<Rightarrow>
        if is_low_speed stop_speed_threshold (car_data ! i) \<and> \<not> in_low_speed then
          (True, Some i, low_speed_groups)
        else if \<not> is_low_speed stop_speed_threshold (car_data ! i) \<and> in_low_speed then
          (case start_idx of
             Some s \<Rightarrow> (False, None, low_speed_groups @ [(s, i)])
           | None \<Rightarrow> (False, None, low_speed_groups))
        else st)"

definition scan_step :: "real \<Rightarrow> base_row list \<Rightarrow> nat \<Rightarrow> scan_state \<Rightarrow> scan_state" where
  "scan_step stop_speed_threshold car_data i st =
     speed_step stop_speed_threshold car_data i (gap_step car_data i st)"

definition scan_rows :: "real \<Rightarrow> base_row list \<Rightarrow> nat \<Rightarrow> scan_state" where
  "scan_rows stop_speed_threshold car_data k =
     fold (scan_step stop_speed_threshold car_data) [0..<k] (False, None, [])"

definition find_low_speed_groups :: "real \<Rightarrow> base_row list \<Rightarrow> (nat \<times> nat) list" where
  "find_low_speed_groups stop_speed_threshold car_data =
     (case scan_rows stop_speed_threshold car_data (length car_data) of
        (in_low_speed, start_idx, low_speed_groups) \<Rightarrow>
          (case start_idx of
             Some s \<Rightarrow> if in_low_speed then low_speed_groups @ [(s, length car_data)]
                       else low_speed_groups
           | None \<Rightarrow> low_speed_groups))"

text \<open>
  The second loop judges every group; the state is \<open>(segment_id, df)\<close>.
\<close>

definition mark_group ::
  "base_row list \<Rightarrow> nat \<times> nat \<Rightarrow> int \<times> base_row list \<Rightarrow> int \<times> base_row list" where
  "mark_group car_data g st =
     (case g of (start, end) \<Rightarrow> case st of (segment_id, df) \<Rightarrow>
        (let segment_data = iloc_slice car_data start end in
         if length segment_data \<ge> 2 then
           (let time_diff = total_seconds (timestamp (last segment_data) - timestamp (hd segment_data));
                has_zero_speed = list_ex is_zero_speed segment_data
            in if time_diff \<ge> 10 \<and> has_zero_speed then
                 (segment_id + 1,
                  loc_update start end
                    (\<lambda>r. r\<lparr>stop_segment := segment_id + 1, is_stopped := 1\<rparr>) df)
               else st)
         else st))"

text \<open>
  The frame after the sort and after the two result columns are set to 0
  (\<open>car_data\<close> is a copy of it).
\<close>

definition init_stop_columns :: "base_row list \<Rightarrow> base_row list" where
  "init_stop_columns rs =
     map (\<lambda>r. r\<lparr>stop_segment := 0, is_stopped := 0\<rparr>) (sort_key timestamp rs)"

definition identify_stop_segments :: "real \<Rightarrow> frame \<Rightarrow> frame" where
  "identify_stop_segments stop_speed_threshold df0 =
     (let cols = assign_column ''is_low_speed'' (columns df0);
          cols = assign_column ''is_zero_speed'' cols;
          cols = assign_column ''stop_segment'' cols;
          cols = assign_column ''is_stopped'' cols;
          df = init_stop_columns (rows df0);
          car_data = df;
          low_speed_groups = find_low_speed_groups stop_speed_threshold car_data;
          marked = snd (fold (mark_group car_data) low_speed_groups (0, df))
      in \<lparr>columns = drop_columns [''is_low_speed'', ''is_zero_speed''] cols, rows = marked\<rparr>)"

section \<open>Event reconciler: \<open>apply_event_labels\<close> and \<open>label_stop_segments\<close>\<close>

definition get_on_map :: "string list" where
  "get_on_map = [''0003'', ''0012'', ''0014'', ''0103'', ''0112'', ''0114'',
                 ''0203'', ''0212'', ''0214'', ''0403'', ''0412'', ''0414'',
                 ''0503'', ''0512'', ''0514'', ''0603'', ''0612'', ''0614'',
                 ''0803'', ''0812'', ''0814'', ''1303'', ''1312'', ''1314'',
                 ''1503'', ''1512'', ''1514'']"

definition get_off_map :: "string list" where
  "get_off_map = [''0300'', ''1200'', ''1400'', ''0301'', ''1201'', ''1401'',
                  ''0302'', ''1202'', ''1402'', ''0304'', ''1204'', ''1404'',
                  ''0305'', ''1205'', ''1405'', ''0306'', ''1206'', ''1406'',
                  ''0308'', ''1208'', ''1408'', ''0313'', ''1213'', ''1413'',
                  ''0315'', ''1215'', ''1415'']"

text \<open>A row of the status log (\<open>change_flag_df\<close>); an empty cell is \<open>None\<close>.\<close>

record change_flag_row =
  cf_time_stamp :: int
  cf_status_management :: "int option"
  cf_change_flag :: "int option"

text \<open>
  \<open>pd.merge(df, change_flag_df[...], left_on='timestamp_ms', right_on='time_stamp',
  how='left')\<close>: every row of the left frame, in order, once for each row of the log
  with its timestamp, or once with empty cells when there is none.
\<close>

definition merge_left :: "base_row list \<Rightarrow> change_flag_row list \<Rightarrow> base_row list" where
  "merge_left df change_flag_df =
     concat (map (\<lambda>r.
       (let timestamp_ms = timestamp r;
            matches = filter (\<lambda>c. cf_time_stamp c = timestamp_ms) change_flag_df
        in if matches = [] then
             [r\<lparr>time_stamp := None, status_management := None, change_flag := None\<rparr>]
           else
             map (\<lambda>c. r\<lparr>time_stamp := Some (cf_time_stamp c),
                          status_management := cf_status_management c,
                          change_flag := cf_change_flag c\<rparr>) matches)) df)"

text \<open>\<open>Series.shift(1)\<close>: every cell moves one row down, the first becomes NaN.\<close>

definition shift1 :: "'a option list \<Rightarrow> 'a option list" where
  "shift1 xs = (if xs = [] then [] else None # butlast xs)"

text \<open>\<open>Series.str.zfill(width)\<close>: zeros on the left up to the width.\<close>

definition zfill :: "nat \<Rightarrow> string \<Rightarrow> string" where
  "zfill width s = replicate (width - length s) (CHR ''0'') @ s"

text \<open>
  \<open>astype(str)\<close> writes a cell as text, in a way that depends on the dtype pandas gave
  the column. It is a parameter of the model: \<open>str_col\<close> for the column
  \<open>status_management\<close> and \<open>str_shifted\<close> for the shifted column. Two instances follow:
  the text of a column of integers (or of their decimal strings), and the text of a
  float64 column, which holds whole numbers below \<open>10^16\<close> as \<open>3.0\<close>.
\<close>

definition digit_char :: "nat \<Rightarrow> char" where
  "digit_char d = ''0123456789'' ! d"

fun digits :: "nat \<Rightarrow> string" where
  "digits n = (if n < 10 then [digit_char n] else digits (n div 10) @ [digit_char (n mod 10)])"

definition str_int :: "int \<Rightarrow> string" where
  "str_int i = (if i < 0 then CHR ''-'' # digits (nat (- i)) else digits (nat i))"

definition str_object :: "int option \<Rightarrow> string" where
  "str_object c = (case c of None \<Rightarrow> ''nan'' | Some i \<Rightarrow> str_int i)"

definition str_float64 :: "int option \<Rightarrow> string" where
  "str_float64 c = (case c of None \<Rightarrow> ''nan'' | Some i \<Rightarrow> str_int i @ ''.0'')"

text \<open>
  \<open>df['status_management'].astype(str).str.zfill(2) +
  df['status_management'].shift(1).astype(str).str.zfill(2)\<close>, for one row.
\<close>

definition status_change_of ::
  "(int option \<Rightarrow> string) \<Rightarrow> (int option \<Rightarrow> string) \<Rightarrow> int option \<Rightarrow> int option \<Rightarrow> string" where
  "status_change_of str_col str_shifted cell shifted_cell =
     zfill 2 (str_col cell) @ zfill 2 (str_shifted shifted_cell)"

text \<open>The four assignments to \<open>event_type\<close>, in the order of the source.\<close>

definition event_type_of :: "int option \<Rightarrow> string \<Rightarrow> int" where
  "event_type_of change_flag_cell status_change_cell =
     (let e = 0;
          e = (if change_flag_cell = Some 1 then 1 else e);
          e = (if status_change_cell \<in> set get_on_map then 1 else e);
          e = (if status_change_cell \<in> set get_off_map then 2 else e)
      in e)"

text \<open>The frame after the join and the sort by timestamp.\<close>

definition join_status :: "base_row list \<Rightarrow> change_flag_row list \<Rightarrow> base_row list" where
  "join_status df change_flag_df = sort_key timestamp (merge_left df change_flag_df)"

definition apply_event_labels ::
  "(int option \<Rightarrow> string) \<Rightarrow> (int option \<Rightarrow> string) \<Rightarrow> frame \<Rightarrow> change_flag_row list \<Rightarrow> frame" where
  "apply_event_labels str_col str_shifted df0 change_flag_df =
     (let cols = assign_column ''timestamp_ms'' (columns df0);
          cols = cols @ [''time_stamp'', ''status_management'', ''change_flag''];
          df = join_status (rows df0) change_flag_df;
          cells = map status_management df;
          df = map (\<lambda>(r, shifted_cell).
                 r\<lparr>status_change :=
                     status_change_of str_col str_shifted (status_management r) shifted_cell\<rparr>)
                 (zip df (shift1 cells));
          cols = assign_column ''status_change'' cols;
          df = map (\<lambda>r. r\<lparr>event_type := event_type_of (change_flag r) (status_change r)\<rparr>) df;
          cols = assign_column ''event_type'' cols
      in \<lparr>columns = cols, rows = df\<rparr>)"

text \<open>The body of the loop over the events: one event, applied to the frame.\<close>

definition label_event :: "base_row \<Rightarrow> base_row list \<Rightarrow> base_row list" where
  "label_event event df =
     (let event_time = timestamp event in
      if event_type event = 1 then
        (let before_event = filter (\<lambda>r. timestamp r < event_time) df in
         if before_event \<noteq> [] then
           (let stopped_before = filter (\<lambda>r. is_stopped r = 1) before_event in
            if stopped_before \<noteq> [] then
              (let last_stop_segment = stop_segment (last stopped_before) in
               if last_stop_segment > 0 then
                 map (\<lambda>r. if stop_segment r = last_stop_segment then r\<lparr>label := 1\<rparr> else r) df
               else df)
            else df)
         else df)
      else if event_type event = 2 then
        (let after_event = filter (\<lambda>r. timestamp r > event_time) df in
         if after_event \<noteq> [] then
           (let stopped_after = filter (\<lambda>r. is_stopped r = 1) after_event in
            if stopped_after \<noteq> [] then
              (let next_stop_segment = stop_segment (hd stopped_after) in
               if next_stop_segment > 0 then
                 map (\<lambda>r. if stop_segment r = next_stop_segment then r\<lparr>label := 2\<rparr> else r) df
               else df)
            else df)
         else df)
      else df)"

definition columns_to_drop :: "string list" where
  "columns_to_drop = [''timestamp_ms'', ''time_stamp'', ''status_management'',
                      ''change_flag'', ''status_change'', ''stop_change'',
                      ''stop_segment'', ''event_type'']"

text \<open>The frame on which the loop over the events starts.\<close>

definition init_label :: "base_row list \<Rightarrow> base_row list" where
  "init_label rs = sort_key timestamp (map (\<lambda>r. r\<lparr>label := 0\<rparr>) rs)"

definition label_stop_segments :: "frame \<Rightarrow> frame" where
  "label_stop_segments df0 =
     (let cols = assign_column ''label'' (columns df0);
          df = init_label (rows df0);
          events = filter (\<lambda>r. event_type r > 0) df;
          df = fold label_event events df
      in \<lparr>columns = drop_columns columns_to_drop cols, rows = df\<rparr>)"

section \<open>Dataset assembly: \<open>create_dataset\<close> and the split of \<open>save_dataset\<close>\<close>

text \<open>\<open>pd.concat(frames, ignore_index=True)\<close> of frames with the same columns.\<close>

definition concat_frames :: "frame list \<Rightarrow> frame" where
  "concat_frames fs =
     \<lparr>columns = (case fs of [] \<Rightarrow> [] | f # _ \<Rightarrow> columns f), rows = concat (map rows fs)\<rparr>"

datatype run_error = NoJsonFiles | NoDataExtracted

text \<open>
  \<open>create_dataset\<close> of the second version, on the documents of the directory (already
  cut to \<open>max_files\<close>) and on the status log.
\<close>

definition create_dataset ::
  "real \<Rightarrow> (int option \<Rightarrow> string) \<Rightarrow> (int option \<Rightarrow> string) \<Rightarrow> document list
     \<Rightarrow> change_flag_row list \<Rightarrow> run_error + (frame \<times> accel_row list)" where
  "create_dataset stop_speed_threshold str_col str_shifted json_files change_flag_df =
     (if json_files = [] then Inl NoJsonFiles
      else
        (let results = map process_json_file json_files;
             all_base_data = filter (\<lambda>f. rows f \<noteq> []) (map fst results);
             all_accel_data = filter (\<lambda>a. a \<noteq> []) (map snd results)
         in if all_base_data = [] then Inl NoDataExtracted
            else
              (let base_df = concat_frames all_base_data;
                   accel_df = concat all_accel_data;
                   base_df = identify_stop_segments stop_speed_threshold base_df;
                   base_df = apply_event_labels str_col str_shifted base_df change_flag_df;
                   base_df = label_stop_segments base_df;
                   base_df = base_df\<lparr>rows := sort_key timestamp (rows base_df)\<rparr>;
                   accel_df = sort_key sample_timestamp accel_df
               in Inr (base_df, accel_df))))"

subsection \<open>Binary64 arithmetic\<close>




subsection \<open>The split of \<open>save_dataset\<close>\<close>








section \<open>Vocabulary of the properties\<close>

subsection \<open>Vocabulary for the properties of the detector\<close>

text \<open>A gap of more than 60 seconds lies between row \<open>i\<close> and the row before it.\<close>

definition gap_before :: "base_row list \<Rightarrow> nat \<Rightarrow> bool" where
  "gap_before rs i \<longleftrightarrow> 0 < i \<and> timestamp (rs ! i) - timestamp (rs ! (i - 1)) > 60000"

text \<open>
  Rows \<open>s..k-1\<close> are all below the threshold, no gap lies inside, and the run cannot be
  extended to the left.
\<close>

definition open_run :: "real \<Rightarrow> base_row list \<Rightarrow> nat \<Rightarrow> nat \<Rightarrow> bool" where
  "open_run thr rs s k \<longleftrightarrow>
     s < k \<and> (\<forall>i\<in>{s..<k}. speed (rs ! i) < thr) \<and>
     (\<forall>i\<in>{Suc s..<k}. \<not> gap_before rs i) \<and>
     (s = 0 \<or> \<not> speed (rs ! (s - 1)) < thr \<or> gap_before rs s)"

text \<open>
  A candidate interval \<open>[s, e)\<close>: a run that is also closed on the right, by the end of
  the stream, by a row at or above the threshold, or by a gap.
\<close>

definition candidate_run :: "real \<Rightarrow> base_row list \<Rightarrow> nat \<Rightarrow> nat \<Rightarrow> bool" where
  "candidate_run thr rs s e \<longleftrightarrow>
     open_run thr rs s e \<and> e \<le> length rs \<and>
     (e = length rs \<or> \<not> speed (rs ! e) < thr \<or> gap_before rs e)"

text \<open>
  A maximal run of low-speed rows in the sense that ignores gaps: closed only by a row
  at or above the threshold or by the end of the stream.
\<close>

definition maximal_low_run :: "real \<Rightarrow> base_row list \<Rightarrow> nat \<Rightarrow> nat \<Rightarrow> bool" where
  "maximal_low_run thr rs s e \<longleftrightarrow>
     s < e \<and> e \<le> length rs \<and> (\<forall>i\<in>{s..<e}. speed (rs ! i) < thr) \<and>
     (s = 0 \<or> \<not> speed (rs ! (s - 1)) < thr) \<and>
     (e = length rs \<or> \<not> speed (rs ! e) < thr)"

text \<open>
  The qualification rule: at least two rows, at least 10 seconds from the first row to
  the last, and a row of speed 0.
\<close>

definition run_qualifies :: "base_row list \<Rightarrow> nat \<Rightarrow> nat \<Rightarrow> bool" where
  "run_qualifies rs s e \<longleftrightarrow>
     s + 2 \<le> e \<and> timestamp (rs ! (e - 1)) - timestamp (rs ! s) \<ge> 10000 \<and>
     (\<exists>i\<in>{s..<e}. speed (rs ! i) = 0)"

text \<open>The invariant of the scan after \<open>k\<close> rows.\<close>

definition scan_inv :: "real \<Rightarrow> base_row list \<Rightarrow> nat \<Rightarrow> scan_state \<Rightarrow> bool" where
  "scan_inv thr rs k st \<longleftrightarrow>
     (case st of (il, si, gs) \<Rightarrow>
        (il \<longleftrightarrow> si \<noteq> None) \<and>
        (\<forall>s. si = Some s \<longrightarrow> open_run thr rs s k) \<and>
        (si = None \<longrightarrow> k = 0 \<or> \<not> speed (rs ! (k - 1)) < thr) \<and>
        set gs = {(s, e). e < k \<and> open_run thr rs s e \<and>
                          (\<not> speed (rs ! e) < thr \<or> gap_before rs e)} \<and>
        sorted_wrt (\<lambda>a b. snd a \<le> fst b) gs)"


subsection \<open>Vocabulary for the properties of the labels\<close>

text \<open>
  The positions of the stopped rows with a timestamp strictly before, and strictly after,
  a given time.
\<close>

definition stopped_before :: "base_row list \<Rightarrow> int \<Rightarrow> nat list" where
  "stopped_before df t = [i \<leftarrow> [0..<length df]. is_stopped (df ! i) = 1 \<and> timestamp (df ! i) < t]"

definition stopped_after :: "base_row list \<Rightarrow> int \<Rightarrow> nat list" where
  "stopped_after df t = [i \<leftarrow> [0..<length df]. is_stopped (df ! i) = 1 \<and> timestamp (df ! i) > t]"

text \<open>
  The segment an event is attached to: for a boarding event the segment of the last
  stopped row strictly before the event, for an alighting event the segment of the first
  stopped row strictly after it; none when there is no such row or its segment id is not
  positive.
\<close>

definition event_target :: "base_row list \<Rightarrow> base_row \<Rightarrow> int option" where
  "event_target df ev =
     (if event_type ev = 1 then
        (if stopped_before df (timestamp ev) = [] then None
         else (let g = stop_segment (df ! last (stopped_before df (timestamp ev)))
               in if g > 0 then Some g else None))
      else if event_type ev = 2 then
        (if stopped_after df (timestamp ev) = [] then None
         else (let g = stop_segment (df ! hd (stopped_after df (timestamp ev)))
               in if g > 0 then Some g else None))
      else None)"

text \<open>The events of a list that are attached to segment \<open>g\<close>, in their order.\<close>

definition events_on :: "base_row list \<Rightarrow> base_row list \<Rightarrow> int \<Rightarrow> base_row list" where
  "events_on df evs g = filter (\<lambda>ev. event_target df ev = Some g) evs"

text \<open>Two frames that differ in their labels only.\<close>

definition same_but_labels :: "base_row list \<Rightarrow> base_row list \<Rightarrow> bool" where
  "same_but_labels df df' \<longleftrightarrow>
     length df' = length df \<and>
     list_all2 (\<lambda>r r'. r' = r\<lparr>label := label r'\<rparr>) df df'"

text \<open>
  Following the wording of the specification: the last timestamp of a segment, and the
  most recent segment that ends at or before a time \<open>t\<close>, if there is one.
\<close>

definition segment_end :: "base_row list \<Rightarrow> int \<Rightarrow> int" where
  "segment_end df g = Max (set (map timestamp (filter (\<lambda>r. stop_segment r = g) df)))"

definition spec_boarding_segment :: "base_row list \<Rightarrow> int \<Rightarrow> int option" where
  "spec_boarding_segment df t =
     (let ended = [g \<leftarrow> remdups (map stop_segment df). g > 0 \<and> segment_end df g \<le> t]
      in if ended = [] then None else Some (last (sort_key (segment_end df) ended)))"

subsection \<open>Example inputs\<close>

text \<open>A base row with the given timestamp and speed, as the parser builds it.\<close>

definition row_at :: "int \<Rightarrow> real \<Rightarrow> base_row" where
  "row_at t v = \<lparr>timestamp = t, speed = v, latitude = 0, longitude = 0, right_blinker = 0,
     left_blinker = 0, stop_segment = 0, is_stopped = 0, time_stamp = None,
     status_management = None, change_flag = None, status_change = [], event_type = 0,
     label = 0\<rparr>"

text \<open>Two rows at speed 0, 70 seconds apart.\<close>

definition gap_rows :: "base_row list" where
  "gap_rows = [row_at 0 0, row_at 70000 0]"

text \<open>A stop of 12 seconds with one row at speed 0, then a row above the threshold.\<close>

definition stop_rows :: "base_row list" where
  "stop_rows = [row_at 0 5, row_at 6000 0, row_at 12000 5, row_at 13000 20]"

text \<open>Two stops of 12 and 13 seconds with a gap of 70 seconds between them.\<close>

definition split_rows :: "base_row list" where
  "split_rows = [row_at 0 0, row_at 12000 0, row_at 82000 0, row_at 95000 0]"

text \<open>A sample with the given \<open>timeStamp\<close> and \<open>speed\<close> fields and no other field.\<close>

definition plain_sample :: "int field \<Rightarrow> real field \<Rightarrow> sample" where
  "plain_sample t v = \<lparr>timeStamp = t, speed_raw = v, accX = Missing, accY = Missing,
     accZ = Missing, radX = Missing, radY = Missing, radZ = Missing,
     vehicleInformationRightBlinker = Missing, vehicleInformationLeftBlinker = Missing,
     latitude_raw = Missing, longitude_raw = Missing, altitude = Missing, heading = Missing\<rparr>"


text \<open>A capture of three samples, the second with a malformed \<open>timeStamp\<close>.\<close>

definition malformed_capture :: capture where
  "malformed_capture = \<lparr>imei = ''351'', recordDateTime = Value (),
     data = Some [plain_sample (Value 1000) (Value 5), plain_sample Malformed (Value 5),
                  plain_sample (Value 3000) (Value 5)]\<rparr>"

text \<open>
  A capture of three samples, 6 seconds apart, the second without \<open>speed\<close> and the
  others at speed 5.
\<close>

definition no_speed_capture :: capture where
  "no_speed_capture = \<lparr>imei = ''351'', recordDateTime = Value (),
     data = Some [plain_sample (Value 0) (Value 5), plain_sample (Value 6000) Missing,
                  plain_sample (Value 12000) (Value 5)]\<rparr>"

text \<open>
  Two rows one second apart and a status log that gives them the status codes 0 and 3;
  in the second log the change flag of the second row is set.
\<close>

definition two_rows :: frame where
  "two_rows = \<lparr>columns = base_columns @ [''stop_segment'', ''is_stopped''],
                rows = [row_at 0 20, row_at 1000 20]\<rparr>"

definition status_log :: "change_flag_row list" where
  "status_log = [\<lparr>cf_time_stamp = 0, cf_status_management = Some 0, cf_change_flag = Some 0\<rparr>,
                 \<lparr>cf_time_stamp = 1000, cf_status_management = Some 3, cf_change_flag = Some 0\<rparr>]"

definition flagged_log :: "change_flag_row list" where
  "flagged_log = [\<lparr>cf_time_stamp = 0, cf_status_management = Some 0, cf_change_flag = Some 0\<rparr>,
                  \<lparr>cf_time_stamp = 1000, cf_status_management = Some 3, cf_change_flag = Some 1\<rparr>]"


definition ratio_07 :: real where
  "ratio_07 = 3152519739159347 / 4503599627370496"



text \<open>
  A row of the frame of raw events: timestamp \<open>t\<close>, segment id \<open>g\<close> and raw event \<open>e\<close>; a
  row of a segment is stopped and has speed 0, another row has speed 20.
\<close>

definition event_row :: "int \<Rightarrow> int \<Rightarrow> int \<Rightarrow> base_row" where
  "event_row t g e = (row_at t (if g > 0 then 0 else 20))
     \<lparr>stop_segment := g, is_stopped := (if g > 0 then 1 else 0), event_type := e\<rparr>"

definition event_columns :: "string list" where
  "event_columns = base_columns @ [''stop_segment'', ''is_stopped'', ''timestamp_ms'',
     ''time_stamp'', ''status_management'', ''change_flag'', ''status_change'', ''event_type'']"

text \<open>
  One segment of three rows, 10 seconds apart, with a boarding event on its middle row.
\<close>

definition inside_rows :: frame where
  "inside_rows = \<lparr>columns = event_columns,
     rows = [event_row 0 1 0, event_row 10000 1 1, event_row 20000 1 0]\<rparr>"

text \<open>
  A segment of two rows, a boarding event 8 seconds after its end, an alighting event
  30 seconds later and a second segment of two rows that starts 10 seconds after it.
\<close>

definition trip_rows :: frame where
  "trip_rows = \<lparr>columns = event_columns,
     rows = [event_row 0 1 0, event_row 12000 1 0, event_row 20000 0 1,
             event_row 50000 0 2, event_row 60000 2 0, event_row 72000 2 0]\<rparr>"

section \<open>Properties of the stop-segment detector\<close>

subsection \<open>The scan finds the candidate intervals\<close>

lemma open_run_iff:
  "open_run thr rs s k \<longleftrightarrow>
     s < k \<and> (\<forall>i. s \<le> i \<and> i < k \<longrightarrow> speed (rs ! i) < thr) \<and>
     (\<forall>i. s < i \<and> i < k \<longrightarrow> \<not> gap_before rs i) \<and>
     (s = 0 \<or> \<not> speed (rs ! (s - 1)) < thr \<or> gap_before rs s)"
  by (simp add: open_run_def Ball_def Suc_le_eq)

lemma run_qualifies_iff:
  "run_qualifies rs s e \<longleftrightarrow>
     s + 2 \<le> e \<and> timestamp (rs ! (e - 1)) - timestamp (rs ! s) \<ge> 10000 \<and>
     (\<exists>i. s \<le> i \<and> i < e \<and> speed (rs ! i) = 0)"
  by (simp add: run_qualifies_def Bex_def)

lemma total_seconds_gt_60: "total_seconds d > 60 \<longleftrightarrow> d > 60000"
  by (simp add: total_seconds_def)

lemma open_run_unique: "open_run thr rs s k \<Longrightarrow> open_run thr rs s' k \<Longrightarrow> s = s'"
proof (rule ccontr)
  assume a: "open_run thr rs s k" and b: "open_run thr rs s' k" and ne: "s \<noteq> s'"
  have aux: False if a: "open_run thr rs u k" and b: "open_run thr rs v k" and lt: "u < v" for u v
  proof -
    from b have "v < k" by (simp add: open_run_iff)
    from a lt \<open>v < k\<close> have "\<not> gap_before rs v" by (simp add: open_run_iff)
    moreover have "speed (rs ! (v - 1)) < thr"
    proof -
      from lt \<open>v < k\<close> have "u \<le> v - 1 \<and> v - 1 < k" by arith
      with a show ?thesis unfolding open_run_iff by blast
    qed
    moreover from lt have "v \<noteq> 0" by simp
    ultimately show False using b by (simp add: open_run_iff)
  qed
  from ne have "s < s' \<or> s' < s" by auto
  then show False using aux a b by blast
qed

lemma open_run_Suc:
  "open_run thr rs s k \<Longrightarrow> speed (rs ! k) < thr \<Longrightarrow> \<not> gap_before rs k \<Longrightarrow> open_run thr rs s (Suc k)"
  by (auto simp: open_run_iff less_Suc_eq)

lemma open_run_single:
  "speed (rs ! k) < thr \<Longrightarrow> k = 0 \<or> \<not> speed (rs ! (k - 1)) < thr \<or> gap_before rs k \<Longrightarrow> open_run thr rs k (Suc k)"
  by (auto simp: open_run_iff less_Suc_eq)

lemma scan_rows_Suc:
  "scan_rows thr rs (Suc k) = scan_step thr rs k (scan_rows thr rs k)"
  by (simp add: scan_rows_def)

lemma scan_inv_0: "scan_inv thr rs 0 (False, None, [])"
  by (simp add: scan_inv_def)

lemma closed_at_iff:
  assumes "open_run thr rs s k"
  shows "{(s', e). e < Suc k \<and> open_run thr rs s' e \<and> Q e} =
         {(s', e). e < k \<and> open_run thr rs s' e \<and> Q e} \<union> (if Q k then {(s, k)} else {})"
proof (rule set_eqI)
  fix x :: "nat \<times> nat"
  obtain a e where x: "x = (a, e)" by (cases x)
  have "e < Suc k \<longleftrightarrow> e < k \<or> e = k" by arith
  moreover have "open_run thr rs a k \<longleftrightarrow> a = s"
    using assms open_run_unique[of thr rs a k s] by blast
  ultimately show "x \<in> {(s', e). e < Suc k \<and> open_run thr rs s' e \<and> Q e} \<longleftrightarrow>
        x \<in> {(s', e). e < k \<and> open_run thr rs s' e \<and> Q e} \<union> (if Q k then {(s, k)} else {})"
    unfolding x by (cases "e = k") auto
qed

lemma closed_at_none:
  assumes "\<And>s'. \<not> (open_run thr rs s' k \<and> Q k)"
  shows "{(s', e). e < Suc k \<and> open_run thr rs s' e \<and> Q e} =
         {(s', e). e < k \<and> open_run thr rs s' e \<and> Q e}"
proof (rule set_eqI)
  fix x :: "nat \<times> nat"
  obtain a e where x: "x = (a, e)" by (cases x)
  have "e < Suc k \<longleftrightarrow> e < k \<or> e = k" by arith
  then show "x \<in> {(s', e). e < Suc k \<and> open_run thr rs s' e \<and> Q e} \<longleftrightarrow>
        x \<in> {(s', e). e < k \<and> open_run thr rs s' e \<and> Q e}"
    unfolding x using assms by (cases "e = k") auto
qed

lemma open_run_prev_low: "open_run thr rs s k \<Longrightarrow> 0 < k \<and> speed (rs ! (k - 1)) < thr"
proof -
  assume a: "open_run thr rs s k"
  then have "s < k" by (simp add: open_run_iff)
  then have "s \<le> k - 1 \<and> k - 1 < k" by arith
  moreover from a have "\<forall>i. s \<le> i \<and> i < k \<longrightarrow> speed (rs ! i) < thr" by (simp add: open_run_iff)
  ultimately show ?thesis using \<open>s < k\<close> by auto
qed

lemma scan_step_closed:
  "scan_step thr rs k (False, None, gs) =
     (if speed (rs ! k) < thr then (True, Some k, gs) else (False, None, gs))"
  by (simp add: scan_step_def gap_step_def speed_step_def is_low_speed_def Let_def)

lemma scan_step_open:
  "scan_step thr rs k (True, Some s, gs) =
     (if gap_before rs k then
        (if speed (rs ! k) < thr then (True, Some k, gs @ [(s, k)]) else (False, None, gs @ [(s, k)]))
      else if speed (rs ! k) < thr then (True, Some s, gs)
      else (False, None, gs @ [(s, k)]))"
  by (simp add: scan_step_def gap_step_def speed_step_def is_low_speed_def Let_def
      gap_before_def total_seconds_gt_60)

lemma scan_inv_closedI:
  "k = 0 \<or> \<not> speed (rs ! (k - 1)) < thr \<Longrightarrow>
   set gs = {(s, e). e < k \<and> open_run thr rs s e \<and> (\<not> speed (rs ! e) < thr \<or> gap_before rs e)} \<Longrightarrow>
   sorted_wrt (\<lambda>a b. snd a \<le> fst b) gs \<Longrightarrow> scan_inv thr rs k (False, None, gs)"
  by (simp add: scan_inv_def)

lemma scan_inv_openI:
  "open_run thr rs s k \<Longrightarrow>
   set gs = {(s, e). e < k \<and> open_run thr rs s e \<and> (\<not> speed (rs ! e) < thr \<or> gap_before rs e)} \<Longrightarrow>
   sorted_wrt (\<lambda>a b. snd a \<le> fst b) gs \<Longrightarrow> scan_inv thr rs k (True, Some s, gs)"
  by (simp add: scan_inv_def)

lemma scan_inv_step:
  assumes inv: "scan_inv thr rs k st"
  shows "scan_inv thr rs (Suc k) (scan_step thr rs k st)"
proof -
  obtain il si gs where st: "st = (il, si, gs)" by (cases st) auto
  let ?Q = "\<lambda>e. \<not> speed (rs ! e) < thr \<or> gap_before rs e"
  from inv st have gs: "set gs = {(s, e). e < k \<and> open_run thr rs s e \<and> ?Q e}"
      and srt: "sorted_wrt (\<lambda>a b. snd a \<le> fst b) gs"
    by (simp_all add: scan_inv_def)
  show ?thesis
  proof (cases si)
    case None
    with inv st have il: "\<not> il" and prev: "k = 0 \<or> \<not> speed (rs ! (k - 1)) < thr"
      by (simp_all add: scan_inv_def)
    have no: "\<And>s'. \<not> (open_run thr rs s' k \<and> ?Q k)"
      using prev open_run_prev_low by blast
    have gs': "set gs = {(s, e). e < Suc k \<and> open_run thr rs s e \<and> ?Q e}"
      using closed_at_none[of thr rs k ?Q, OF no] gs by simp
    show ?thesis
    proof (cases "speed (rs ! k) < thr")
      case True
      have "open_run thr rs k (Suc k)" using open_run_single[OF True] prev by blast
      then have "scan_inv thr rs (Suc k) (True, Some k, gs)"
        using gs' srt by (rule scan_inv_openI)
      then show ?thesis using st None il True by (simp add: scan_step_closed)
    next
      case False
      have "scan_inv thr rs (Suc k) (False, None, gs)"
        using gs' srt False by (intro scan_inv_closedI) simp_all
      then show ?thesis using st None il False by (simp add: scan_step_closed)
    qed
  next
    case (Some s)
    with inv st have il: "il" and run: "open_run thr rs s k"
      by (simp_all add: scan_inv_def)
    have gs': "{(s, e). e < Suc k \<and> open_run thr rs s e \<and> ?Q e} = set gs \<union> (if ?Q k then {(s, k)} else {})"
      using closed_at_iff[OF run, of ?Q] gs by simp
    have before: "\<And>g. g \<in> set gs \<Longrightarrow> snd g \<le> s"
    proof -
      fix g assume "g \<in> set gs"
      with gs obtain a e where g: "g = (a, e)" and e: "e < k" and q: "?Q e" and ar: "open_run thr rs a e" by auto
      show "snd g \<le> s"
      proof (rule ccontr)
        assume "\<not> snd g \<le> s"
        with g have "s < e" by simp
        with run e have "speed (rs ! e) < thr \<and> \<not> gap_before rs e" by (simp add: open_run_iff)
        with q show False by simp
      qed
    qed
    have srt': "sorted_wrt (\<lambda>a b. snd a \<le> fst b) (gs @ [(s, k)])"
      using srt before by (simp add: sorted_wrt_append)
    have step: "scan_step thr rs k st = scan_step thr rs k (True, Some s, gs)"
      using st Some il by simp
    show ?thesis
    proof (cases "?Q k")
      case True
      then have gsk: "set (gs @ [(s, k)]) = {(s, e). e < Suc k \<and> open_run thr rs s e \<and> ?Q e}"
        using gs' by simp
      show ?thesis
      proof (cases "speed (rs ! k) < thr")
        case low: True
        with True have g: "gap_before rs k" by simp
        have "open_run thr rs k (Suc k)" using open_run_single[OF low] g by blast
        then have "scan_inv thr rs (Suc k) (True, Some k, gs @ [(s, k)])"
          using gsk srt' by (rule scan_inv_openI)
        then show ?thesis using step low g by (simp add: scan_step_open)
      next
        case nlow: False
        have "scan_inv thr rs (Suc k) (False, None, gs @ [(s, k)])"
          using gsk srt' nlow by (intro scan_inv_closedI) simp_all
        then show ?thesis using step nlow by (simp add: scan_step_open)
      qed
    next
      case False
      then have low: "speed (rs ! k) < thr" and ng: "\<not> gap_before rs k" by simp_all
      from False have gsk: "set gs = {(s, e). e < Suc k \<and> open_run thr rs s e \<and> ?Q e}"
        using gs' by simp
      have "open_run thr rs s (Suc k)" using open_run_Suc[OF run low ng] .
      then have "scan_inv thr rs (Suc k) (True, Some s, gs)"
        using gsk srt by (rule scan_inv_openI)
      then show ?thesis using step low ng by (simp add: scan_step_open)
    qed
  qed
qed

lemma scan_inv_rows: "scan_inv thr rs k (scan_rows thr rs k)"
proof (induction k)
  case 0
  show ?case by (simp add: scan_rows_def scan_inv_def)
next
  case (Suc k)
  then show ?case using scan_inv_step by (simp add: scan_rows_Suc)
qed

lemma closed_before_open:
  assumes "open_run thr rs s k" "open_run thr rs a e" "e < k"
    "\<not> speed (rs ! e) < thr \<or> gap_before rs e"
  shows "e \<le> s"
proof (rule ccontr)
  assume "\<not> e \<le> s"
  then have "s < e" by simp
  with assms(1,3) have "speed (rs ! e) < thr \<and> \<not> gap_before rs e" by (simp add: open_run_iff)
  with assms(4) show False by simp
qed

lemma groups_iff:
  "(s, e) \<in> set (find_low_speed_groups thr rs) \<longleftrightarrow> candidate_run thr rs s e"
proof -
  let ?n = "length rs"
  let ?Q = "\<lambda>e. \<not> speed (rs ! e) < thr \<or> gap_before rs e"
  obtain il si gs where st: "scan_rows thr rs ?n = (il, si, gs)" by (cases "scan_rows thr rs ?n") auto
  have inv: "scan_inv thr rs ?n (il, si, gs)" using scan_inv_rows[of thr rs ?n] st by simp
  then have gs: "set gs = {(s, e). e < ?n \<and> open_run thr rs s e \<and> ?Q e}"
    and il: "il \<longleftrightarrow> si \<noteq> None"
    by (simp_all add: scan_inv_def)
  have lt: "(s, e) \<in> set gs \<longleftrightarrow> candidate_run thr rs s e \<and> e < ?n"
    using gs by (auto simp: candidate_run_def)
  show ?thesis
  proof (cases si)
    case None
    with inv have "?n = 0 \<or> \<not> speed (rs ! (?n - 1)) < thr" by (simp add: scan_inv_def)
    then have "\<not> open_run thr rs s ?n" using open_run_prev_low by blast
    then have "candidate_run thr rs s e \<Longrightarrow> e < ?n"
      by (cases "e = ?n") (auto simp: candidate_run_def)
    with lt None st show ?thesis by (auto simp: find_low_speed_groups_def)
  next
    case (Some s0)
    with inv have run: "open_run thr rs s0 ?n" by (simp add: scan_inv_def)
    have "candidate_run thr rs s ?n \<longleftrightarrow> s = s0"
      using run open_run_unique[of thr rs s ?n s0] by (auto simp: candidate_run_def)
    moreover have "candidate_run thr rs s e \<Longrightarrow> e < ?n \<or> e = ?n"
      by (auto simp: candidate_run_def)
    moreover have "set (find_low_speed_groups thr rs) = set gs \<union> {(s0, ?n)}"
      using st Some il by (simp add: find_low_speed_groups_def)
    ultimately show ?thesis using lt by auto
  qed
qed

lemma groups_sorted:
  "sorted_wrt (\<lambda>a b. snd a \<le> fst b) (find_low_speed_groups thr rs)"
proof -
  let ?n = "length rs"
  obtain il si gs where st: "scan_rows thr rs ?n = (il, si, gs)" by (cases "scan_rows thr rs ?n") auto
  have inv: "scan_inv thr rs ?n (il, si, gs)" using scan_inv_rows[of thr rs ?n] st by simp
  then have gs: "set gs = {(s, e). e < ?n \<and> open_run thr rs s e \<and> (\<not> speed (rs ! e) < thr \<or> gap_before rs e)}"
    and il: "il \<longleftrightarrow> si \<noteq> None" and srt: "sorted_wrt (\<lambda>a b. snd a \<le> fst b) gs"
    by (simp_all add: scan_inv_def)
  show ?thesis
  proof (cases si)
    case None
    with st srt show ?thesis by (simp add: find_low_speed_groups_def)
  next
    case (Some s0)
    with inv have run: "open_run thr rs s0 ?n" by (simp add: scan_inv_def)
    have "\<And>g. g \<in> set gs \<Longrightarrow> snd g \<le> s0"
      using gs closed_before_open[OF run] by auto
    then have "sorted_wrt (\<lambda>a b. snd a \<le> fst b) (gs @ [(s0, ?n)])"
      using srt by (simp add: sorted_wrt_append)
    then show ?thesis using st Some il by (simp add: find_low_speed_groups_def)
  qed
qed

lemma candidate_run_bounds: "candidate_run thr rs s e \<Longrightarrow> s < e \<and> e \<le> length rs"
  by (simp add: candidate_run_def open_run_iff)

subsection \<open>The marking loop\<close>

lemma length_loc_update [simp]: "length (loc_update s e f xs) = length xs"
  by (simp add: loc_update_def)

lemma nth_loc_update:
  "i < length xs \<Longrightarrow> loc_update s e f xs ! i = (if s \<le> i \<and> i < e then f (xs ! i) else xs ! i)"
  by (simp add: loc_update_def)

lemma total_seconds_ge_10: "total_seconds d \<ge> 10 \<longleftrightarrow> d \<ge> 10000"
  by (simp add: total_seconds_def)

lemma length_iloc_slice: "e \<le> length xs \<Longrightarrow> length (iloc_slice xs s e) = e - s"
  by (simp add: iloc_slice_def)

lemma nth_iloc_slice: "e \<le> length xs \<Longrightarrow> i < e - s \<Longrightarrow> iloc_slice xs s e ! i = xs ! (s + i)"
  by (simp add: iloc_slice_def)

lemma iloc_slice_nonempty: "s < e \<Longrightarrow> e \<le> length xs \<Longrightarrow> iloc_slice xs s e \<noteq> []"
  using length_iloc_slice[of e xs s] by auto

lemma hd_iloc_slice: "s < e \<Longrightarrow> e \<le> length xs \<Longrightarrow> hd (iloc_slice xs s e) = xs ! s"
  using nth_iloc_slice[of e xs 0 s] iloc_slice_nonempty[of s e xs]
  by (simp add: hd_conv_nth)

lemma last_iloc_slice:
  assumes "s < e" "e \<le> length xs"
  shows "last (iloc_slice xs s e) = xs ! (e - 1)"
proof -
  have j: "e - s - 1 < e - s" using assms by arith
  have "last (iloc_slice xs s e) = iloc_slice xs s e ! (e - s - 1)"
    using iloc_slice_nonempty[OF assms] length_iloc_slice[OF assms(2), of s]
    by (simp add: last_conv_nth)
  also have "\<dots> = xs ! (s + (e - s - 1))" using nth_iloc_slice[OF assms(2) j] .
  also have "s + (e - s - 1) = e - 1" using assms by arith
  finally show ?thesis .
qed

lemma list_ex_iloc_slice:
  assumes "s < e" "e \<le> length xs"
  shows "list_ex P (iloc_slice xs s e) \<longleftrightarrow> (\<exists>i. s \<le> i \<and> i < e \<and> P (xs ! i))"
proof
  assume "list_ex P (iloc_slice xs s e)"
  then obtain j where j: "j < e - s" and p: "P (iloc_slice xs s e ! j)"
    using length_iloc_slice[OF assms(2), of s] by (auto simp: list_ex_iff in_set_conv_nth)
  then have "P (xs ! (s + j))" using nth_iloc_slice[OF assms(2) j] by simp
  moreover have "s \<le> s + j \<and> s + j < e" using j by arith
  ultimately show "\<exists>i. s \<le> i \<and> i < e \<and> P (xs ! i)" by blast
next
  assume "\<exists>i. s \<le> i \<and> i < e \<and> P (xs ! i)"
  then obtain i where i: "s \<le> i" "i < e" and p: "P (xs ! i)" by blast
  then have j: "i - s < e - s" by arith
  have "iloc_slice xs s e ! (i - s) = xs ! i" using nth_iloc_slice[OF assms(2) j] i by simp
  moreover have "i - s < length (iloc_slice xs s e)" using j length_iloc_slice[OF assms(2), of s] by simp
  ultimately show "list_ex P (iloc_slice xs s e)" using p
    unfolding list_ex_iff by (metis nth_mem)
qed

lemma mark_group_eq:
  assumes "s < e" "e \<le> length car"
  shows "mark_group car (s, e) (sid, df) =
    (if run_qualifies car s e
     then (sid + 1, loc_update s e (\<lambda>r. r\<lparr>stop_segment := sid + 1, is_stopped := 1\<rparr>) df)
     else (sid, df))"
proof -
  have "(2 \<le> e - s) = (s + 2 \<le> e)" by arith
  then show ?thesis
    using assms
    by (auto simp: mark_group_def Let_def length_iloc_slice hd_iloc_slice last_iloc_slice
        list_ex_iloc_slice total_seconds_ge_10 run_qualifies_iff is_zero_speed_def)
qed

lemma mark_group_eq':
  assumes "fst g < snd g" "snd g \<le> length car"
  shows "mark_group car g (sid, df) =
    (if run_qualifies car (fst g) (snd g)
     then (sid + 1, loc_update (fst g) (snd g) (\<lambda>r. r\<lparr>stop_segment := sid + 1, is_stopped := 1\<rparr>) df)
     else (sid, df))"
  using mark_group_eq[OF assms, of sid df] by simp

lemma mark_fold_length:
  assumes "\<forall>g\<in>set gs. fst g < snd g \<and> snd g \<le> length car"
  shows "length (snd (fold (mark_group car) gs (sid, df))) = length df"
  using assms
proof (induction gs arbitrary: sid df)
  case Nil
  show ?case by simp
next
  case (Cons g gs)
  then have g: "fst g < snd g" "snd g \<le> length car" by simp_all
  from Cons.prems have rest: "\<forall>g\<in>set gs. fst g < snd g \<and> snd g \<le> length car" by simp
  show ?case
    using Cons.IH[OF rest] by (simp add: mark_group_eq'[OF g])
qed

lemma mark_fold_untouched:
  assumes "\<forall>g\<in>set gs. fst g < snd g \<and> snd g \<le> length car"
    and "i < length df"
    and "\<forall>g\<in>set gs. run_qualifies car (fst g) (snd g) \<longrightarrow> \<not> (fst g \<le> i \<and> i < snd g)"
  shows "snd (fold (mark_group car) gs (sid, df)) ! i = df ! i"
  using assms
proof (induction gs arbitrary: sid df)
  case Nil
  show ?case by simp
next
  case (Cons g gs)
  then have g: "fst g < snd g" "snd g \<le> length car" by simp_all
  from Cons.prems have rest: "\<forall>g\<in>set gs. fst g < snd g \<and> snd g \<le> length car"
    and rest': "\<forall>g\<in>set gs. run_qualifies car (fst g) (snd g) \<longrightarrow> \<not> (fst g \<le> i \<and> i < snd g)"
    by simp_all
  show ?case
  proof (cases "run_qualifies car (fst g) (snd g)")
    case True
    let ?df1 = "loc_update (fst g) (snd g) (\<lambda>r. r\<lparr>stop_segment := sid + 1, is_stopped := 1\<rparr>) df"
    from True Cons.prems have out: "\<not> (fst g \<le> i \<and> i < snd g)" by simp
    have len: "i < length ?df1" using Cons.prems(2) by simp
    have "snd (fold (mark_group car) gs (sid + 1, ?df1)) ! i = ?df1 ! i"
      using Cons.IH[OF rest len rest'] .
    also have "?df1 ! i = df ! i" using out Cons.prems(2) by (auto simp: nth_loc_update)
    finally show ?thesis using True by (simp add: mark_group_eq'[OF g])
  next
    case False
    then show ?thesis
      using Cons.IH[OF rest Cons.prems(2) rest'] by (simp add: mark_group_eq'[OF g])
  qed
qed

lemma mark_fold_touched:
  assumes "sorted_wrt (\<lambda>a b. snd a \<le> fst b) gs"
    and "\<forall>g\<in>set gs. fst g < snd g \<and> snd g \<le> length car"
    and "length df = length car"
    and "j < length (filter (\<lambda>g. run_qualifies car (fst g) (snd g)) gs)"
    and "fst (filter (\<lambda>g. run_qualifies car (fst g) (snd g)) gs ! j) \<le> i"
    and "i < snd (filter (\<lambda>g. run_qualifies car (fst g) (snd g)) gs ! j)"
  shows "snd (fold (mark_group car) gs (sid, df)) ! i =
         (df ! i)\<lparr>stop_segment := sid + int j + 1, is_stopped := 1\<rparr>"
  using assms
proof (induction gs arbitrary: sid df j)
  case Nil
  then show ?case by simp
next
  case (Cons g gs)
  let ?Q = "\<lambda>g. run_qualifies car (fst g) (snd g)"
  from Cons.prems have g: "fst g < snd g" "snd g \<le> length car" by simp_all
  from Cons.prems have rest: "\<forall>g\<in>set gs. fst g < snd g \<and> snd g \<le> length car"
    and srt: "sorted_wrt (\<lambda>a b. snd a \<le> fst b) gs"
    and after: "\<forall>h\<in>set gs. snd g \<le> fst h"
    by simp_all
  show ?case
  proof (cases "?Q g")
    case False
    then show ?thesis
      using Cons.IH[OF srt rest Cons.prems(3), of j sid] Cons.prems(4,5,6)
      by (simp add: mark_group_eq'[OF g])
  next
    case True
    let ?df1 = "loc_update (fst g) (snd g) (\<lambda>r. r\<lparr>stop_segment := sid + 1, is_stopped := 1\<rparr>) df"
    have step: "fold (mark_group car) (g # gs) (sid, df) = fold (mark_group car) gs (sid + 1, ?df1)"
      using True by (simp add: mark_group_eq'[OF g])
    have len1: "length ?df1 = length car" using Cons.prems(3) by simp
    show ?thesis
    proof (cases j)
      case 0
      with True Cons.prems have i: "fst g \<le> i" "i < snd g" by simp_all
      then have ilen: "i < length df" using g Cons.prems(3) by simp
      have "\<forall>h\<in>set gs. ?Q h \<longrightarrow> \<not> (fst h \<le> i \<and> i < snd h)"
        using after i by auto
      then have "snd (fold (mark_group car) gs (sid + 1, ?df1)) ! i = ?df1 ! i"
        using mark_fold_untouched[OF rest, of i ?df1 "sid + 1"] ilen by simp
      also have "?df1 ! i = (df ! i)\<lparr>stop_segment := sid + 1, is_stopped := 1\<rparr>"
        using i ilen by (simp add: nth_loc_update)
      finally show ?thesis using step 0 by simp
    next
      case (Suc j')
      with True Cons.prems have j': "j' < length (filter ?Q gs)"
        and i: "fst (filter ?Q gs ! j') \<le> i" "i < snd (filter ?Q gs ! j')"
        by simp_all
      have mem: "filter ?Q gs ! j' \<in> set gs"
        using j' nth_mem[of j' "filter ?Q gs"] by auto
      then have "snd g \<le> i" using after i by auto
      moreover have "i < length df" using mem rest i Cons.prems(3) by auto
      ultimately have same: "?df1 ! i = df ! i" by (auto simp: nth_loc_update)
      have "snd (fold (mark_group car) gs (sid + 1, ?df1)) ! i =
            (?df1 ! i)\<lparr>stop_segment := sid + 1 + int j' + 1, is_stopped := 1\<rparr>"
        using Cons.IH[OF srt rest len1 j' i] .
      then show ?thesis using step Suc same by simp
    qed
  qed
qed

subsection \<open>Segments of the output frame\<close>

lemma sorted_pairs_disjoint:
  assumes "sorted_wrt (\<lambda>a b. snd a \<le> fst b) gs" "g \<in> set gs" "h \<in> set gs"
    "fst g \<le> i" "i < snd g" "fst h \<le> (i::nat)" "i < snd h"
  shows "g = h"
proof -
  obtain k where k: "k < length gs" "gs ! k = g" using assms(2) by (auto simp: in_set_conv_nth)
  obtain l where l: "l < length gs" "gs ! l = h" using assms(3) by (auto simp: in_set_conv_nth)
  have "\<not> k < l"
  proof
    assume "k < l"
    then have "snd g \<le> fst h" using sorted_wrt_nth_less[OF assms(1) _ l(1), of k] k l by simp
    with assms show False by simp
  qed
  moreover have "\<not> l < k"
  proof
    assume "l < k"
    then have "snd h \<le> fst g" using sorted_wrt_nth_less[OF assms(1) _ k(1), of l] k l by simp
    with assms show False by simp
  qed
  ultimately have "k = l" by simp
  with k l show ?thesis by simp
qed

lemma sorted_pairs_card:
  assumes srt: "sorted_wrt (\<lambda>a b. snd a \<le> fst b) qs"
    and pos: "\<forall>g\<in>set qs. fst g < snd (g :: nat \<times> nat)"
    and j: "j < length qs"
  shows "card {g \<in> set qs. snd g \<le> fst (qs ! j)} = j"
proof -
  have dist: "distinct qs"
  proof -
    have "\<And>k l. k < l \<Longrightarrow> l < length qs \<Longrightarrow> qs ! k \<noteq> qs ! l"
    proof
      fix k l assume kl: "k < l" "l < length qs" and eq: "qs ! k = qs ! l"
      have "snd (qs ! k) \<le> fst (qs ! l)" using sorted_wrt_nth_less[OF srt kl] .
      moreover have "fst (qs ! l) < snd (qs ! l)" using pos kl(2) by simp
      ultimately show False using eq by simp
    qed
    then show ?thesis
      by (metis distinct_conv_nth nat_neq_iff)
  qed
  have "{g \<in> set qs. snd g \<le> fst (qs ! j)} = set (take j qs)"
  proof (rule set_eqI)
    fix g
    show "g \<in> {g \<in> set qs. snd g \<le> fst (qs ! j)} \<longleftrightarrow> g \<in> set (take j qs)"
    proof
      assume "g \<in> {g \<in> set qs. snd g \<le> fst (qs ! j)}"
      then obtain k where k: "k < length qs" "qs ! k = g" and le: "snd g \<le> fst (qs ! j)"
        by (auto simp: in_set_conv_nth)
      have "k < j"
      proof (rule ccontr)
        assume "\<not> k < j"
        then have "k = j \<or> j < k" by arith
        then show False
        proof
          assume "k = j"
          with k le pos j show False by (metis nth_mem not_le)
        next
          assume "j < k"
          then have "snd (qs ! j) \<le> fst (qs ! k)" using sorted_wrt_nth_less[OF srt _ k(1)] by simp
          moreover have "fst (qs ! j) < snd (qs ! j)" using pos j by simp
          moreover have "fst (qs ! k) < snd (qs ! k)" using pos k(1) by simp
          ultimately show False using le k(2) by simp
        qed
      qed
      then show "g \<in> set (take j qs)" using k j by (auto simp: in_set_conv_nth)
    next
      assume "g \<in> set (take j qs)"
      then obtain k where k: "k < j" "qs ! k = g" using j by (auto simp: in_set_conv_nth)
      then have "snd g \<le> fst (qs ! j)" using sorted_wrt_nth_less[OF srt k(1) j] by simp
      moreover have "g \<in> set qs" using k j by (metis less_trans nth_mem)
      ultimately show "g \<in> {g \<in> set qs. snd g \<le> fst (qs ! j)}" by simp
    qed
  qed
  then have "card {g \<in> set qs. snd g \<le> fst (qs ! j)} = card (set (take j qs))" by simp
  also have "\<dots> = length (take j qs)" using dist by (simp add: distinct_card)
  also have "\<dots> = j" using j by simp
  finally show ?thesis .
qed

lemma init_stop_columns_zero:
  "r \<in> set (init_stop_columns rs) \<Longrightarrow> stop_segment r = 0 \<and> is_stopped r = 0"
  by (auto simp: init_stop_columns_def)

lemma groups_wf:
  "\<forall>g\<in>set (find_low_speed_groups thr rs). fst g < snd g \<and> snd g \<le> length rs"
  using groups_iff[of _ _ thr rs] candidate_run_bounds[of thr rs] by auto

lemma rows_identify:
  "rows (identify_stop_segments thr df0) =
     snd (fold (mark_group (init_stop_columns (rows df0)))
        (find_low_speed_groups thr (init_stop_columns (rows df0))) (0, init_stop_columns (rows df0)))"
  by (simp add: identify_stop_segments_def Let_def)

lemma identify_length:
  "length (rows (identify_stop_segments thr df0)) = length (init_stop_columns (rows df0))"
  using mark_fold_length[OF groups_wf] by (simp add: rows_identify)

lemma identify_unmarked:
  assumes "i < length (init_stop_columns (rows df0))"
    and "\<And>s e. candidate_run thr (init_stop_columns (rows df0)) s e \<Longrightarrow>
           run_qualifies (init_stop_columns (rows df0)) s e \<Longrightarrow> \<not> (s \<le> i \<and> i < e)"
  shows "rows (identify_stop_segments thr df0) ! i = init_stop_columns (rows df0) ! i"
proof -
  let ?car = "init_stop_columns (rows df0)"
  have "\<forall>g\<in>set (find_low_speed_groups thr ?car).
          run_qualifies ?car (fst g) (snd g) \<longrightarrow> \<not> (fst g \<le> i \<and> i < snd g)"
  proof
    fix g assume "g \<in> set (find_low_speed_groups thr ?car)"
    then have "candidate_run thr ?car (fst g) (snd g)" using groups_iff[of "fst g" "snd g" thr ?car] by simp
    then show "run_qualifies ?car (fst g) (snd g) \<longrightarrow> \<not> (fst g \<le> i \<and> i < snd g)"
      using assms(2) by blast
  qed
  then show ?thesis
    using mark_fold_untouched[OF groups_wf assms(1)] by (simp add: rows_identify)
qed

lemma candidate_runs_disjoint:
  assumes "candidate_run thr rs s e" "candidate_run thr rs a b" "s \<le> i" "i < e" "a \<le> i" "i < b"
  shows "a = s \<and> b = e"
proof -
  have "(s, e) \<in> set (find_low_speed_groups thr rs)" "(a, b) \<in> set (find_low_speed_groups thr rs)"
    using assms(1,2) by (simp_all add: groups_iff)
  then have "(s, e) = (a, b)"
    using sorted_pairs_disjoint[OF groups_sorted, of "(s, e)" thr rs "(a, b)" i] assms by simp
  then show ?thesis by simp
qed

lemma identify_not_qualifying:
  assumes run: "candidate_run thr (init_stop_columns (rows df0)) s e"
    and nq: "\<not> run_qualifies (init_stop_columns (rows df0)) s e"
    and i: "s \<le> i" "i < e"
  shows "rows (identify_stop_segments thr df0) ! i = init_stop_columns (rows df0) ! i"
proof (rule identify_unmarked)
  show "i < length (init_stop_columns (rows df0))"
    using candidate_run_bounds[OF run] i by simp
next
  fix a b
  assume "candidate_run thr (init_stop_columns (rows df0)) a b"
    and q: "run_qualifies (init_stop_columns (rows df0)) a b"
  then show "\<not> (a \<le> i \<and> i < b)"
    using candidate_runs_disjoint[OF run _ i, of a b] nq by blast
qed

lemma identify_not_low:
  assumes "i < length (init_stop_columns (rows df0))"
    and "\<not> speed (init_stop_columns (rows df0) ! i) < thr"
  shows "rows (identify_stop_segments thr df0) ! i = init_stop_columns (rows df0) ! i"
proof (rule identify_unmarked[OF assms(1)])
  fix a b
  assume "candidate_run thr (init_stop_columns (rows df0)) a b"
  then have "\<forall>k. a \<le> k \<and> k < b \<longrightarrow> speed (init_stop_columns (rows df0) ! k) < thr"
    by (simp add: candidate_run_def open_run_iff)
  then show "\<not> (a \<le> i \<and> i < b)" using assms(2) by blast
qed

lemma qualifying_before_set:
  assumes "filter (\<lambda>g. run_qualifies car (fst g) (snd g)) (find_low_speed_groups thr car) ! j = (s, e)"
  shows "{(a, b). candidate_run thr car a b \<and> run_qualifies car a b \<and> b \<le> s} =
        {g \<in> set (filter (\<lambda>g. run_qualifies car (fst g) (snd g)) (find_low_speed_groups thr car)).
           snd g \<le> fst (filter (\<lambda>g. run_qualifies car (fst g) (snd g)) (find_low_speed_groups thr car) ! j)}"
proof (rule set_eqI)
  fix x :: "nat \<times> nat"
  obtain a b where x: "x = (a, b)" by (cases x)
  show "x \<in> {(a, b). candidate_run thr car a b \<and> run_qualifies car a b \<and> b \<le> s} \<longleftrightarrow>
        x \<in> {g \<in> set (filter (\<lambda>g. run_qualifies car (fst g) (snd g)) (find_low_speed_groups thr car)).
           snd g \<le> fst (filter (\<lambda>g. run_qualifies car (fst g) (snd g)) (find_low_speed_groups thr car) ! j)}"
    unfolding x assms by (simp add: groups_iff)
qed

lemma identify_qualifying:
  assumes run: "candidate_run thr (init_stop_columns (rows df0)) s e"
    and q: "run_qualifies (init_stop_columns (rows df0)) s e"
    and i: "s \<le> i" "i < e"
  shows "rows (identify_stop_segments thr df0) ! i =
     (init_stop_columns (rows df0) ! i)
       \<lparr>stop_segment := 1 + int (card {(a, b). candidate_run thr (init_stop_columns (rows df0)) a b \<and>
              run_qualifies (init_stop_columns (rows df0)) a b \<and> b \<le> s}),
        is_stopped := 1\<rparr>"
proof -
  define car where "car = init_stop_columns (rows df0)"
  define gs where "gs = find_low_speed_groups thr car"
  define qs where "qs = filter (\<lambda>g. run_qualifies car (fst g) (snd g)) gs"
  have mem: "(s, e) \<in> set qs" using run q by (simp add: qs_def gs_def car_def groups_iff)
  then obtain j where j: "j < length qs" "qs ! j = (s, e)" by (metis in_set_conv_nth)
  have srt: "sorted_wrt (\<lambda>a b. snd a \<le> fst b) qs"
    unfolding qs_def gs_def using groups_sorted[of thr car] by (rule sorted_wrt_filter)
  have pos: "\<forall>g\<in>set qs. fst g < snd g" using groups_wf[of thr car] by (simp add: qs_def gs_def)
  have "{(a, b). candidate_run thr car a b \<and> run_qualifies car a b \<and> b \<le> s} =
        {g \<in> set qs. snd g \<le> fst (qs ! j)}"
    using qualifying_before_set[of car thr j s e] j(2) unfolding qs_def gs_def by blast
  then have card: "card {(a, b). candidate_run thr car a b \<and> run_qualifies car a b \<and> b \<le> s} = j"
    using sorted_pairs_card[OF srt pos j(1)] by simp
  have wf: "\<forall>g\<in>set gs. fst g < snd g \<and> snd g \<le> length car"
    unfolding gs_def by (rule groups_wf)
  have srt_gs: "sorted_wrt (\<lambda>a b. snd a \<le> fst b) gs"
    unfolding gs_def by (rule groups_sorted)
  have j': "j < length (filter (\<lambda>g. run_qualifies car (fst g) (snd g)) gs)"
    using j(1) by (simp add: qs_def)
  have lo: "fst (filter (\<lambda>g. run_qualifies car (fst g) (snd g)) gs ! j) \<le> i"
    using j(2) i(1) by (simp add: qs_def)
  have hi: "i < snd (filter (\<lambda>g. run_qualifies car (fst g) (snd g)) gs ! j)"
    using j(2) i(2) by (simp add: qs_def)
  have "snd (fold (mark_group car) gs (0, car)) ! i =
        (car ! i)\<lparr>stop_segment := 0 + int j + 1, is_stopped := 1\<rparr>"
    by (rule mark_fold_touched[OF srt_gs wf refl j' lo hi])
  moreover have "rows (identify_stop_segments thr df0) = snd (fold (mark_group car) gs (0, car))"
    unfolding gs_def car_def by (rule rows_identify)
  moreover have "0 + int j + 1 = 1 + int j" by simp
  ultimately have "rows (identify_stop_segments thr df0) ! i =
        (car ! i)\<lparr>stop_segment := 1 + int j, is_stopped := 1\<rparr>" by simp
  then show ?thesis unfolding card[symmetric] car_def .
qed

subsection \<open>Claims about the detector\<close>

text \<open>
  Claim C1, as the detector implements it. The intervals that are judged are the
  candidate intervals: maximal runs of rows below the threshold that are closed by a row
  at or above the threshold, by the end of the stream, or by a gap of more than 60
  seconds. Every row of a candidate interval that qualifies (at least two rows, at least
  10 seconds from its first to its last row, a row of speed 0) carries the segment id
  \<open>1 +\<close> the number of qualifying candidate intervals that end before it, and
  \<open>is_stopped = 1\<close>; every row of a candidate interval that does not qualify, and every
  row at or above the threshold, is left as it was, with \<open>stop_segment = 0\<close> and
  \<open>is_stopped = 0\<close>.
\<close>

theorem stop_segment_marking:
  fixes thr df0
  defines "car \<equiv> init_stop_columns (rows df0)"
  defines "out \<equiv> rows (identify_stop_segments thr df0)"
  shows "length out = length car \<and>
    (\<forall>r\<in>set car. stop_segment r = 0 \<and> is_stopped r = 0) \<and>
    (\<forall>s e. candidate_run thr car s e \<and> run_qualifies car s e \<longrightarrow>
       (\<forall>i. s \<le> i \<and> i < e \<longrightarrow> out ! i = (car ! i)
          \<lparr>stop_segment := 1 + int (card {(a, b). candidate_run thr car a b \<and> run_qualifies car a b \<and> b \<le> s}),
           is_stopped := 1\<rparr>)) \<and>
    (\<forall>s e. candidate_run thr car s e \<and> \<not> run_qualifies car s e \<longrightarrow>
       (\<forall>i. s \<le> i \<and> i < e \<longrightarrow> out ! i = car ! i)) \<and>
    (\<forall>i<length car. \<not> speed (car ! i) < thr \<longrightarrow> out ! i = car ! i)"
  unfolding car_def out_def
  using identify_length[of thr df0] init_stop_columns_zero[of _ "rows df0"]
    identify_qualifying[of thr df0] identify_not_qualifying[of thr df0] identify_not_low[of _ df0 thr]
  by blast

lemma row_at_sel:
  "timestamp (row_at t v) = t" "speed (row_at t v) = v"
  "stop_segment (row_at t v) = 0" "is_stopped (row_at t v) = 0"
  by (simp_all add: row_at_def)

lemma init_stop_columns_stop_rows: "init_stop_columns stop_rows = stop_rows"
  by (simp add: init_stop_columns_def stop_rows_def row_at_def)

text \<open>
  The theorem at the frame \<open>stop_rows\<close>: rows 0 to 2 form a qualifying interval and get
  the segment id 1, row 3 is above the threshold and is unchanged.
\<close>

theorem stop_segment_marking_witness:
  "candidate_run 10 (init_stop_columns stop_rows) 0 3 \<and>
   run_qualifies (init_stop_columns stop_rows) 0 3 \<and>
   rows (identify_stop_segments 10 \<lparr>columns = base_columns, rows = stop_rows\<rparr>) ! 1 =
     (row_at 6000 0)\<lparr>stop_segment := 1, is_stopped := 1\<rparr> \<and>
   rows (identify_stop_segments 10 \<lparr>columns = base_columns, rows = stop_rows\<rparr>) ! 3 = row_at 13000 20"
proof -
  let ?df = "\<lparr>columns = base_columns, rows = stop_rows\<rparr>"
  have car: "init_stop_columns (rows ?df) = stop_rows"
    by (simp add: init_stop_columns_stop_rows)
  have run: "candidate_run 10 stop_rows 0 3"
    by (simp add: candidate_run_def open_run_def gap_before_def stop_rows_def row_at_sel
        atLeastLessThan_nat_numeral)
  have q: "run_qualifies stop_rows 0 3"
    by (simp add: run_qualifies_def stop_rows_def row_at_sel atLeastLessThan_nat_numeral)
  have none: "{(a, b). candidate_run 10 stop_rows a b \<and> run_qualifies stop_rows a b \<and> b \<le> 0} = {}"
    by (auto simp: candidate_run_def open_run_iff)
  have fast: "\<not> speed (stop_rows ! 3) < 10" by (simp add: stop_rows_def row_at_sel)
  have len: "(3::nat) < length stop_rows" by (simp add: stop_rows_def)
  note marking = stop_segment_marking[of 10 ?df, unfolded car]
  have "rows (identify_stop_segments 10 ?df) ! 1 = (stop_rows ! 1)
          \<lparr>stop_segment := 1 + int (card {(a, b). candidate_run 10 stop_rows a b \<and> run_qualifies stop_rows a b \<and> b \<le> 0}),
           is_stopped := 1\<rparr>"
    using marking[THEN conjunct2, THEN conjunct2, THEN conjunct1, rule_format, of 0 3 1] run q
    by simp
  then have r1: "rows (identify_stop_segments 10 ?df) ! 1 = (row_at 6000 0)\<lparr>stop_segment := 1, is_stopped := 1\<rparr>"
    unfolding none by (simp add: stop_rows_def)
  have r3: "rows (identify_stop_segments 10 ?df) ! 3 = row_at 13000 20"
    using marking[THEN conjunct2, THEN conjunct2, THEN conjunct2, THEN conjunct2, rule_format, of 3] fast len
    by (simp add: stop_rows_def)
  show ?thesis using run q r1 r3 by (simp add: init_stop_columns_stop_rows)
qed

lemma gap_step_open:
  "gap_before car i \<Longrightarrow> gap_step car i (True, Some s, gs) = (False, None, gs @ [(s, i)])"
  by (simp add: gap_step_def gap_before_def total_seconds_gt_60 Let_def)

lemma groups_no_gap_inside:
  assumes "(s, e) \<in> set (find_low_speed_groups thr car)" "i \<in> {Suc s..<e}"
  shows "\<not> gap_before car i"
proof -
  from assms(1) have "open_run thr car s e" by (simp add: groups_iff candidate_run_def)
  with assms(2) show ?thesis by (simp add: open_run_def)
qed

lemma gap_splits_run:
  assumes run: "maximal_low_run thr car s e" and m: "s < m" "m < e" and gap: "gap_before car m"
    and others: "\<forall>i\<in>{Suc s..<e}. i \<noteq> m \<longrightarrow> \<not> gap_before car i"
  shows "candidate_run thr car s m \<and> candidate_run thr car m e \<and> \<not> candidate_run thr car s e"
proof -
  from run have low: "\<And>i. s \<le> i \<Longrightarrow> i < e \<Longrightarrow> speed (car ! i) < thr"
    and len: "e \<le> length car"
    and left: "s = 0 \<or> \<not> speed (car ! (s - 1)) < thr"
    and right: "e = length car \<or> \<not> speed (car ! e) < thr"
    by (simp_all add: maximal_low_run_def)
  from others have ng: "\<And>i. s < i \<Longrightarrow> i < e \<Longrightarrow> i \<noteq> m \<Longrightarrow> \<not> gap_before car i" by simp
  have "open_run thr car s m"
    unfolding open_run_iff using m low ng left by auto
  then have a: "candidate_run thr car s m"
    using m len gap by (simp add: candidate_run_def)
  have "open_run thr car m e"
    unfolding open_run_iff using m low ng gap by auto
  then have b: "candidate_run thr car m e"
    using len right by (auto simp: candidate_run_def)
  have c: "\<not> candidate_run thr car s e"
    using m gap by (auto simp: candidate_run_def open_run_iff)
  show ?thesis using a b c by simp
qed

text \<open>
  Claim C6. When a gap of more than 60 seconds lies before row \<open>i\<close> while a low-speed
  run starting at \<open>s\<close> is open, the gap check of the scan closes the run as the group
  \<open>(s, i)\<close>, whose last row is the prior row, whatever the speed of row \<open>i\<close>. The
  groups of the scan are exactly the candidate intervals, so no group has a gap inside;
  and a maximal low-speed run with a single gap inside, before row \<open>m\<close>, yields the two
  groups \<open>(s, m)\<close> and \<open>(m, e)\<close> and not the group \<open>(s, e)\<close>.
\<close>

theorem gap_closes_and_splits:
  "(\<forall>i s gs. gap_before car i \<longrightarrow>
      gap_step car i (True, Some s, gs) = (False, None, gs @ [(s, i)])) \<and>
   (\<forall>s e. (s, e) \<in> set (find_low_speed_groups thr car) \<longleftrightarrow> candidate_run thr car s e) \<and>
   (\<forall>s e. (s, e) \<in> set (find_low_speed_groups thr car) \<longrightarrow>
      (\<forall>i\<in>{Suc s..<e}. \<not> gap_before car i)) \<and>
   (\<forall>s m e. maximal_low_run thr car s e \<and> s < m \<and> m < e \<and> gap_before car m \<and>
      (\<forall>i\<in>{Suc s..<e}. i \<noteq> m \<longrightarrow> \<not> gap_before car i) \<longrightarrow>
      (s, m) \<in> set (find_low_speed_groups thr car) \<and>
      (m, e) \<in> set (find_low_speed_groups thr car) \<and>
      (s, e) \<notin> set (find_low_speed_groups thr car))"
proof (intro conjI allI impI)
  fix i s gs assume "gap_before car i"
  then show "gap_step car i (True, Some s, gs) = (False, None, gs @ [(s, i)])"
    by (rule gap_step_open)
next
  fix s e show "(s, e) \<in> set (find_low_speed_groups thr car) \<longleftrightarrow> candidate_run thr car s e"
    by (rule groups_iff)
next
  fix s e assume "(s, e) \<in> set (find_low_speed_groups thr car)"
  then show "\<forall>i\<in>{Suc s..<e}. \<not> gap_before car i"
    using groups_no_gap_inside by blast
next
  fix s m e
  assume a: "maximal_low_run thr car s e \<and> s < m \<and> m < e \<and> gap_before car m \<and>
      (\<forall>i\<in>{Suc s..<e}. i \<noteq> m \<longrightarrow> \<not> gap_before car i)"
  then have r: "candidate_run thr car s m \<and> candidate_run thr car m e \<and> \<not> candidate_run thr car s e"
    using gap_splits_run[of thr car s e m] by blast
  from r show "(s, m) \<in> set (find_low_speed_groups thr car)" by (simp add: groups_iff)
  from r show "(m, e) \<in> set (find_low_speed_groups thr car)" by (simp add: groups_iff)
  from r show "(s, e) \<notin> set (find_low_speed_groups thr car)" by (simp add: groups_iff)
qed

lemma split_rows_groups: "find_low_speed_groups 10 split_rows = [(0, 2), (2, 4)]"
  by (simp add: find_low_speed_groups_def scan_rows_def split_rows_def scan_step_def gap_step_def
      speed_step_def is_low_speed_def total_seconds_def upt_rec Let_def row_at_sel)

text \<open>
  The theorem at the frame \<open>split_rows\<close>, whose four low-speed rows have a gap of 70
  seconds before row 2.
\<close>

theorem gap_closes_and_splits_witness:
  "maximal_low_run 10 split_rows 0 4 \<and> (0::nat) < 2 \<and> (2::nat) < 4 \<and> gap_before split_rows 2 \<and>
   \<not> gap_before split_rows 1 \<and> \<not> gap_before split_rows 3 \<and>
   (0, 2) \<in> set (find_low_speed_groups 10 split_rows) \<and>
   (2, 4) \<in> set (find_low_speed_groups 10 split_rows) \<and>
   (0, 4) \<notin> set (find_low_speed_groups 10 split_rows) \<and>
   find_low_speed_groups 10 split_rows = [(0, 2), (2, 4)]"
proof -
  have run: "maximal_low_run 10 split_rows 0 4"
    by (simp add: maximal_low_run_def split_rows_def row_at_sel atLeastLessThan_nat_numeral)
  have gap: "gap_before split_rows 2"
    by (simp add: gap_before_def split_rows_def row_at_sel)
  have others: "\<forall>i\<in>{Suc 0..<4}. i \<noteq> 2 \<longrightarrow> \<not> gap_before split_rows i"
    by (simp add: gap_before_def split_rows_def row_at_sel atLeastLessThan_nat_numeral)
  have "(0, 2) \<in> set (find_low_speed_groups 10 split_rows) \<and>
        (2, 4) \<in> set (find_low_speed_groups 10 split_rows) \<and>
        (0, 4) \<notin> set (find_low_speed_groups 10 split_rows)"
    using gap_closes_and_splits[of split_rows 10, THEN conjunct2, THEN conjunct2, THEN conjunct2,
        rule_format, of 0 4 2] run gap others by simp
  moreover have "\<not> gap_before split_rows 1 \<and> \<not> gap_before split_rows 3"
    by (simp add: gap_before_def split_rows_def row_at_sel)
  ultimately show ?thesis using run gap split_rows_groups by simp
qed

text \<open>
  Claim C1 as it is worded, with runs closed only by a speed rise or by the end of the
  stream, fails on \<open>gap_rows\<close>: its two rows form such a run, of 70 seconds, with a row
  of speed 0 and two rows, and no row is marked.
\<close>

theorem gap_run_not_marked:
  "maximal_low_run 10 gap_rows 0 2 \<and> run_qualifies gap_rows 0 2 \<and>
   map stop_segment (rows (identify_stop_segments 10 \<lparr>columns = base_columns, rows = gap_rows\<rparr>)) = [0, 0] \<and>
   map is_stopped (rows (identify_stop_segments 10 \<lparr>columns = base_columns, rows = gap_rows\<rparr>)) = [0, 0]"
proof -
  have a: "maximal_low_run 10 gap_rows 0 2"
    by (simp add: maximal_low_run_def gap_rows_def row_at_sel atLeastLessThan_nat_numeral)
  have b: "run_qualifies gap_rows 0 2"
    by (simp add: run_qualifies_def gap_rows_def row_at_sel atLeastLessThan_nat_numeral)
  have init: "init_stop_columns gap_rows = gap_rows"
    by (simp add: init_stop_columns_def gap_rows_def row_at_def)
  have scan: "find_low_speed_groups 10 gap_rows = [(0, 1), (1, 2)]"
    by (simp add: find_low_speed_groups_def scan_rows_def gap_rows_def scan_step_def gap_step_def
      speed_step_def is_low_speed_def total_seconds_def upt_rec Let_def row_at_sel)
  have out: "rows (identify_stop_segments 10 \<lparr>columns = base_columns, rows = gap_rows\<rparr>) = gap_rows"
    by (simp add: rows_identify init scan)
      (simp add: gap_rows_def mark_group_def iloc_slice_def)
  show ?thesis using a b unfolding out by (simp add: gap_rows_def row_at_sel)
qed

section \<open>Properties of the record parser\<close>

lemma process_records_fails:
  "r \<in> set rs \<Longrightarrow> process_record rd r = Inl e \<Longrightarrow> \<exists>e'. process_records rd rs acc = Inl e'"
proof (induction rs arbitrary: acc)
  case Nil
  then show ?case by simp
next
  case (Cons x xs)
  show ?case
  proof (cases "process_record rd x")
    case (Inl e0)
    then show ?thesis by simp
  next
    case (Inr p)
    with Cons.prems have "r \<in> set xs" by auto
    then obtain e' where "process_records rd xs (fst acc @ [fst p], snd acc @ snd p) = Inl e'"
      using Cons.IH[OF _ Cons.prems(2)] by blast
    then show ?thesis using Inr by (simp add: case_prod_beta)
  qed
qed

lemma process_record_malformed_timestamp:
  "timeStamp r = Malformed \<Longrightarrow> \<exists>e. process_record rd r = Inl e"
  by (cases rd) (simp_all add: process_record_def parse_timestamp_def)

lemma process_json_file_fails:
  assumes "data d = Some records" "r \<in> set records" "process_record (recordDateTime d) r = Inl e"
  shows "process_json_file (Document d) = (empty_frame, [])"
proof -
  obtain e' where "process_records (recordDateTime d) records ([], []) = Inl e'"
    using process_records_fails[OF assms(2,3)] by blast
  then show ?thesis using assms(1) by (simp add: process_json_file_def)
qed

lemma process_record_missing_timestamp:
  "process_record rd (r\<lparr>timeStamp := Missing\<rparr>) = process_record rd (r\<lparr>timeStamp := Value 0\<rparr>)"
  by (simp add: process_record_def cong: sum.case_cong)

text \<open>
  Claim C7, as the parser implements it. A sample whose \<open>timeStamp\<close> is malformed raises
  inside the loop over the samples; the exception is caught for the whole file, so the
  capture yields an empty base frame and no acceleration row: no sample of the capture is
  emitted. A sample without \<open>timeStamp\<close> raises nothing: it is processed as a sample
  whose \<open>timeStamp\<close> is 0.
\<close>

theorem malformed_timestamp_drops_capture:
  "(data d = Some records \<and> r \<in> set records \<and> timeStamp r = Malformed \<longrightarrow>
      process_json_file (Document d) = (empty_frame, [])) \<and>
   process_record rd (r'\<lparr>timeStamp := Missing\<rparr>) = process_record rd (r'\<lparr>timeStamp := Value 0\<rparr>)"
  using process_json_file_fails[of d records r] process_record_malformed_timestamp[of r "recordDateTime d"]
    process_record_missing_timestamp[of rd r']
  by blast

lemma plain_sample_sel:
  "timeStamp (plain_sample t v) = t" "speed_raw (plain_sample t v) = v"
  by (simp_all add: plain_sample_def)

text \<open>
  The theorem at \<open>malformed_capture\<close>, whose second sample has a malformed
  \<open>timeStamp\<close>.
\<close>

theorem malformed_timestamp_drops_capture_witness:
  "data malformed_capture = Some [plain_sample (Value 1000) (Value 5), plain_sample Malformed (Value 5),
                  plain_sample (Value 3000) (Value 5)] \<and>
   plain_sample Malformed (Value 5) \<in> set [plain_sample (Value 1000) (Value 5), plain_sample Malformed (Value 5),
                  plain_sample (Value 3000) (Value 5)] \<and>
   timeStamp (plain_sample Malformed (Value 5)) = Malformed \<and>
   process_json_file (Document malformed_capture) = (empty_frame, [])"
proof -
  have a: "data malformed_capture = Some [plain_sample (Value 1000) (Value 5), plain_sample Malformed (Value 5),
                  plain_sample (Value 3000) (Value 5)]"
    by (simp add: malformed_capture_def)
  have b: "plain_sample Malformed (Value 5) \<in> set [plain_sample (Value 1000) (Value 5), plain_sample Malformed (Value 5),
                  plain_sample (Value 3000) (Value 5)]" by simp
  have c: "timeStamp (plain_sample Malformed (Value 5)) = Malformed" by (simp add: plain_sample_sel)
  show ?thesis
    using malformed_timestamp_drops_capture[THEN conjunct1, rule_format, OF conjI[OF a conjI[OF b c]]] a b c
    by simp
qed

lemma motion_rows_empty:
  "motion_rows ts [] [] [] [] [] [] =
     [\<lparr>sample_timestamp = ts, acc_x = None, acc_y = None, acc_z = None,
        rad_x = None, rad_y = None, rad_z = None\<rparr>]"
  by (simp add: motion_rows_def nth_or_nan_def)

lemma process_record_plain:
  "process_record (Value ()) (plain_sample t v) =
     (case get_or t 0 of
        Value ts \<Rightarrow>
          (case get_or v 0 of
             Value spd \<Rightarrow> Inr (row_at ts spd, [\<lparr>sample_timestamp = ts, acc_x = None, acc_y = None,
                 acc_z = None, rad_x = None, rad_y = None, rad_z = None\<rparr>])
           | _ \<Rightarrow> Inl BadNumber)
      | _ \<Rightarrow> Inl BadTimeStamp)"
proof -
  have sel: "timeStamp (plain_sample t v) = t" "speed_raw (plain_sample t v) = v"
    "accX (plain_sample t v) = Missing" "accY (plain_sample t v) = Missing"
    "accZ (plain_sample t v) = Missing" "radX (plain_sample t v) = Missing"
    "radY (plain_sample t v) = Missing" "radZ (plain_sample t v) = Missing"
    "vehicleInformationRightBlinker (plain_sample t v) = Missing"
    "vehicleInformationLeftBlinker (plain_sample t v) = Missing"
    "latitude_raw (plain_sample t v) = Missing" "longitude_raw (plain_sample t v) = Missing"
    "altitude (plain_sample t v) = Missing" "heading (plain_sample t v) = Missing"
    by (simp_all add: plain_sample_def)
  have aux: "extract_array_values (Value []) = []" "py_float (Value 0) = Inr 0"
    "blinkers (Value [0]) (Value [0]) = (0, 0)"
    by (simp_all add: extract_array_values_def py_float_def blinkers_def)
  show ?thesis
    unfolding process_record_def sel get_or.simps aux Let_def
    by (cases "get_or t 0"; cases "get_or v 0")
       (simp_all add: parse_timestamp_def py_float_def motion_rows_empty row_at_def)
qed

text \<open>
  Claim C7 as it is worded fails on \<open>malformed_capture\<close>: the first and the third
  sample are well formed, each of them alone yields a base row and an acceleration row,
  and the capture yields no row at all.
\<close>

theorem malformed_sample_not_skipped:
  "rows (fst (process_json_file (Document malformed_capture))) = [] \<and>
   snd (process_json_file (Document malformed_capture)) = [] \<and>
   process_record (Value ()) (plain_sample (Value 1000) (Value 5)) =
     Inr (row_at 1000 5, [\<lparr>sample_timestamp = 1000, acc_x = None, acc_y = None, acc_z = None,
                           rad_x = None, rad_y = None, rad_z = None\<rparr>]) \<and>
   process_record (Value ()) (plain_sample (Value 3000) (Value 5)) =
     Inr (row_at 3000 5, [\<lparr>sample_timestamp = 3000, acc_x = None, acc_y = None, acc_z = None,
                           rad_x = None, rad_y = None, rad_z = None\<rparr>])"
  by (simp add: process_json_file_def malformed_capture_def process_record_plain empty_frame_def)

lemma process_record_Inr:
  assumes "process_record rd r = Inr (b, a)"
  shows "parse_timestamp rd (get_or (timeStamp r) 0) = Inr (timestamp b)"
    and "py_float (get_or (speed_raw r) 0) = Inr (speed b)"
    and "a = motion_rows (timestamp b)
           (extract_array_values (get_or (accX r) [])) (extract_array_values (get_or (accY r) []))
           (extract_array_values (get_or (accZ r) [])) (extract_array_values (get_or (radX r) []))
           (extract_array_values (get_or (radY r) [])) (extract_array_values (get_or (radZ r) []))"
  using assms by (auto simp: process_record_def Let_def split: sum.splits)








text \<open>
  Claim C10. A sample without \<open>speed\<close> that is processed yields a base row of speed
  0, which is a zero-speed row for the detector: a group of at least two rows spanning at
  least 10 seconds that holds a row of this speed is marked, whatever the speeds of its
  other rows.
\<close>

theorem missing_speed_is_zero:
  "speed_raw r = Missing \<and> process_record rd r = Inr (b, a) \<longrightarrow>
     speed b = 0 \<and> is_zero_speed b \<and>
     (\<forall>car s e i sid df.
        s \<le> i \<and> i < e \<and> e \<le> length car \<and> s + 2 \<le> e \<and> speed (car ! i) = speed b \<and>
        10000 \<le> timestamp (car ! (e - 1)) - timestamp (car ! s) \<longrightarrow>
        mark_group car (s, e) (sid, df) =
          (sid + 1, loc_update s e (\<lambda>r. r\<lparr>stop_segment := sid + 1, is_stopped := 1\<rparr>) df))"
proof (intro impI)
  assume h: "speed_raw r = Missing \<and> process_record rd r = Inr (b, a)"
  then have "py_float (get_or (speed_raw r) 0) = Inr (speed b)"
    using process_record_Inr(2)[of rd r b a] by simp
  with h have zero: "speed b = 0" by (simp add: py_float_def)
  have "\<forall>car s e i sid df.
        s \<le> i \<and> i < e \<and> e \<le> length car \<and> s + 2 \<le> e \<and> speed (car ! i) = speed b \<and>
        10000 \<le> timestamp (car ! (e - 1)) - timestamp (car ! s) \<longrightarrow>
        mark_group car (s, e) (sid, df) =
          (sid + 1, loc_update s e (\<lambda>r. r\<lparr>stop_segment := sid + 1, is_stopped := 1\<rparr>) df)"
  proof (intro allI impI)
    fix car :: "base_row list" and s e i :: nat and sid :: int and df :: "base_row list"
    assume a: "s \<le> i \<and> i < e \<and> e \<le> length car \<and> s + 2 \<le> e \<and> speed (car ! i) = speed b \<and>
        10000 \<le> timestamp (car ! (e - 1)) - timestamp (car ! s)"
    then have q: "run_qualifies car s e"
      unfolding run_qualifies_iff using zero by auto
    from a have "s < e" "e \<le> length car" by auto
    from mark_group_eq[OF this, of sid df] q
    show "mark_group car (s, e) (sid, df) =
          (sid + 1, loc_update s e (\<lambda>r. r\<lparr>stop_segment := sid + 1, is_stopped := 1\<rparr>) df)"
      by simp
  qed
  with zero show "speed b = 0 \<and> is_zero_speed b \<and>
     (\<forall>car s e i sid df.
        s \<le> i \<and> i < e \<and> e \<le> length car \<and> s + 2 \<le> e \<and> speed (car ! i) = speed b \<and>
        10000 \<le> timestamp (car ! (e - 1)) - timestamp (car ! s) \<longrightarrow>
        mark_group car (s, e) (sid, df) =
          (sid + 1, loc_update s e (\<lambda>r. r\<lparr>stop_segment := sid + 1, is_stopped := 1\<rparr>) df))"
    by (simp add: is_zero_speed_def)
qed

lemma process_no_speed_capture:
  "process_json_file (Document no_speed_capture) =
     (\<lparr>columns = base_columns, rows = [row_at 0 5, row_at 6000 0, row_at 12000 5]\<rparr>,
      [\<lparr>sample_timestamp = 0, acc_x = None, acc_y = None, acc_z = None,
         rad_x = None, rad_y = None, rad_z = None\<rparr>,
       \<lparr>sample_timestamp = 6000, acc_x = None, acc_y = None, acc_z = None,
         rad_x = None, rad_y = None, rad_z = None\<rparr>,
       \<lparr>sample_timestamp = 12000, acc_x = None, acc_y = None, acc_z = None,
         rad_x = None, rad_y = None, rad_z = None\<rparr>])"
  by (simp add: process_json_file_def no_speed_capture_def process_record_plain)

lemma process_record_no_speed:
  "process_record (Value ()) (plain_sample (Value 6000) Missing) =
     Inr (row_at 6000 0, [\<lparr>sample_timestamp = 6000, acc_x = None, acc_y = None, acc_z = None,
         rad_x = None, rad_y = None, rad_z = None\<rparr>])"
  by (simp add: process_record_plain)

text \<open>
  The theorem at \<open>no_speed_capture\<close>: the only row of speed 0 comes from the sample
  without \<open>speed\<close>, and the three rows become stop segment 1.
\<close>

theorem missing_speed_is_zero_witness:
  "speed_raw (plain_sample (Value 6000) Missing) = Missing \<and>
   process_record (Value ()) (plain_sample (Value 6000) Missing) =
     Inr (row_at 6000 0, [\<lparr>sample_timestamp = 6000, acc_x = None, acc_y = None, acc_z = None,
         rad_x = None, rad_y = None, rad_z = None\<rparr>]) \<and>
   speed (row_at 6000 0) = 0 \<and>
   fst (mark_group [row_at 0 5, row_at 6000 0, row_at 12000 5] (0, 3)
         (0, [row_at 0 5, row_at 6000 0, row_at 12000 5])) = 1 \<and>
   rows (fst (process_json_file (Document no_speed_capture))) =
     [row_at 0 5, row_at 6000 0, row_at 12000 5] \<and>
   map stop_segment (rows (identify_stop_segments 10 (fst (process_json_file (Document no_speed_capture)))))
     = [1, 1, 1]"
proof -
  let ?car = "[row_at 0 5, row_at 6000 0, row_at 12000 5]"
  have m: "speed_raw (plain_sample (Value 6000) Missing) = Missing" by (simp add: plain_sample_sel)
  note t = missing_speed_is_zero[rule_format, OF conjI[OF m process_record_no_speed]]
  have side: "(0::nat) \<le> 1 \<and> (1::nat) < 3 \<and> 3 \<le> length ?car \<and> (0::nat) + 2 \<le> 3 \<and>
      speed (?car ! 1) = speed (row_at 6000 0) \<and>
      10000 \<le> timestamp (?car ! (3 - 1)) - timestamp (?car ! 0)"
    by (simp add: row_at_sel)
  have mg: "fst (mark_group ?car (0, 3) (0, ?car)) = 1"
    using t[THEN conjunct2, THEN conjunct2, rule_format, OF side, of 0 ?car] by simp
  have init: "init_stop_columns ?car = ?car"
    by (simp add: init_stop_columns_def row_at_def)
  have scan: "find_low_speed_groups 10 ?car = [(0, 3)]"
    by (simp add: find_low_speed_groups_def scan_rows_def scan_step_def gap_step_def
      speed_step_def is_low_speed_def total_seconds_def upt_rec Let_def row_at_sel)
  have "rows (identify_stop_segments 10 \<lparr>columns = base_columns, rows = ?car\<rparr>) =
        snd (mark_group ?car (0, 3) (0, ?car))"
    by (simp add: rows_identify init scan)
  also have "\<dots> = loc_update 0 3 (\<lambda>r. r\<lparr>stop_segment := 0 + 1, is_stopped := 1\<rparr>) ?car"
    using t[THEN conjunct2, THEN conjunct2, rule_format, OF side, of 0 ?car] by simp
  finally have "map stop_segment (rows (identify_stop_segments 10 \<lparr>columns = base_columns, rows = ?car\<rparr>)) = [1, 1, 1]"
    by (simp add: loc_update_def upt_rec row_at_def)
  then show ?thesis using m process_record_no_speed t[THEN conjunct1] mg
    by (simp add: process_no_speed_capture)
qed

section \<open>Properties of the raw events\<close>

lemma length_shift1 [simp]: "length (shift1 xs) = length xs"
  by (cases xs rule: rev_cases) (simp_all add: shift1_def)

lemma nth_shift1:
  "i < length xs \<Longrightarrow> shift1 xs ! i = (if i = 0 then None else xs ! (i - 1))"
  by (cases i) (auto simp: shift1_def nth_butlast)

lemma rows_apply_event_labels:
  "rows (apply_event_labels sc ss df0 cf) =
     map (\<lambda>(r, p). r\<lparr>status_change := status_change_of sc ss (status_management r) p,
                      event_type := event_type_of (change_flag r)
                         (status_change_of sc ss (status_management r) p)\<rparr>)
       (zip (join_status (rows df0) cf) (shift1 (map status_management (join_status (rows df0) cf))))"
  by (simp add: apply_event_labels_def Let_def case_prod_beta comp_def)

lemma length_apply_event_labels:
  "length (rows (apply_event_labels sc ss df0 cf)) = length (join_status (rows df0) cf)"
  by (simp add: rows_apply_event_labels)

lemma nth_apply_event_labels:
  assumes "i < length (join_status (rows df0) cf)"
  shows "rows (apply_event_labels sc ss df0 cf) ! i =
     (join_status (rows df0) cf ! i)
       \<lparr>status_change := status_change_of sc ss (status_management (join_status (rows df0) cf ! i))
            (if i = 0 then None else status_management (join_status (rows df0) cf ! (i - 1))),
        event_type := event_type_of (change_flag (join_status (rows df0) cf ! i))
          (status_change_of sc ss (status_management (join_status (rows df0) cf ! i))
            (if i = 0 then None else status_management (join_status (rows df0) cf ! (i - 1))))\<rparr>"
proof -
  let ?J = "join_status (rows df0) cf"
  have "shift1 (map status_management ?J) ! i =
        (if i = 0 then None else status_management (?J ! (i - 1)))"
    using assms by (simp add: nth_shift1)
  then show ?thesis using assms by (simp add: rows_apply_event_labels)
qed

lemma event_type_of_eq:
  "event_type_of c code =
     (if code \<in> set get_off_map then 2
      else if code \<in> set get_on_map \<or> c = Some 1 then 1 else 0)"
  by (simp add: event_type_of_def Let_def)

lemma get_on_map_facts: "length get_on_map = 27" "distinct get_on_map" "\<forall>c\<in>set get_on_map. length c = 4"
  by (simp_all add: get_on_map_def)

lemma get_off_map_facts: "length get_off_map = 27" "distinct get_off_map" "\<forall>c\<in>set get_off_map. length c = 4"
  by (simp_all add: get_off_map_def)

lemma maps_disjoint: "set get_on_map \<inter> set get_off_map = {}"
  by (simp add: get_on_map_def get_off_map_def)

lemma length_zfill: "length (zfill w s) = max w (length s)"
  by (simp add: zfill_def)

text \<open>
  Claim C3, as \<open>apply_event_labels\<close> implements it. In the frame sorted by timestamp, the
  transition code of a row is the text of its own status code, filled with zeros to two
  characters, followed by the text of the status code of the row before it, filled
  likewise: the current row comes first, the previous row second. The raw event of the row
  is ALIGHTING (2) when the code is in the alighting table, otherwise BOARDING (1) when the
  code is in the boarding table or the change flag is 1, otherwise NONE (0). The first row
  has no previous row: its code ends with the text of NaN, and when that text has three
  characters or more the code is in neither table. Both tables have 27 distinct entries
  and share none.
\<close>

theorem transition_code_current_then_previous:
  fixes str_col str_shifted df0 change_flag_df
  defines "df \<equiv> join_status (rows df0) change_flag_df"
  defines "out \<equiv> rows (apply_event_labels str_col str_shifted df0 change_flag_df)"
  shows "length out = length df \<and>
    (\<forall>i<length df.
       status_change (out ! i) =
         zfill 2 (str_col (status_management (df ! i))) @
         zfill 2 (str_shifted (if i = 0 then None else status_management (df ! (i - 1)))) \<and>
       event_type (out ! i) =
         (if status_change (out ! i) \<in> set get_off_map then 2
          else if status_change (out ! i) \<in> set get_on_map \<or> change_flag (df ! i) = Some 1 then 1
          else 0)) \<and>
    (0 < length df \<and> 3 \<le> length (str_shifted None) \<longrightarrow>
       status_change (out ! 0) \<notin> set get_on_map \<union> set get_off_map) \<and>
    length get_on_map = 27 \<and> distinct get_on_map \<and>
    length get_off_map = 27 \<and> distinct get_off_map \<and>
    set get_on_map \<inter> set get_off_map = {}"
proof -
  have len: "length out = length df"
    unfolding out_def df_def by (rule length_apply_event_labels)
  have rows: "\<forall>i<length df.
       status_change (out ! i) =
         zfill 2 (str_col (status_management (df ! i))) @
         zfill 2 (str_shifted (if i = 0 then None else status_management (df ! (i - 1)))) \<and>
       event_type (out ! i) =
         (if status_change (out ! i) \<in> set get_off_map then 2
          else if status_change (out ! i) \<in> set get_on_map \<or> change_flag (df ! i) = Some 1 then 1
          else 0)"
  proof (intro allI impI)
    fix i assume i: "i < length df"
    then have "i < length (join_status (rows df0) change_flag_df)" by (simp add: df_def)
    from nth_apply_event_labels[OF this, of str_col str_shifted]
    show "status_change (out ! i) =
         zfill 2 (str_col (status_management (df ! i))) @
         zfill 2 (str_shifted (if i = 0 then None else status_management (df ! (i - 1)))) \<and>
       event_type (out ! i) =
         (if status_change (out ! i) \<in> set get_off_map then 2
          else if status_change (out ! i) \<in> set get_on_map \<or> change_flag (df ! i) = Some 1 then 1
          else 0)"
      unfolding out_def df_def
      by (simp add: status_change_of_def event_type_of_eq)
  qed
  have first: "0 < length df \<and> 3 \<le> length (str_shifted None) \<longrightarrow>
       status_change (out ! 0) \<notin> set get_on_map \<union> set get_off_map"
  proof
    assume h: "0 < length df \<and> 3 \<le> length (str_shifted None)"
    then have "status_change (out ! 0) =
         zfill 2 (str_col (status_management (df ! 0))) @ zfill 2 (str_shifted None)"
      using rows by auto
    moreover have "2 \<le> length (zfill 2 (str_col (status_management (df ! 0))))"
      by (simp add: length_zfill)
    moreover have "3 \<le> length (zfill 2 (str_shifted None))"
      using h by (simp add: length_zfill)
    ultimately have "length (status_change (out ! 0)) \<ge> 5"
      by simp
    then show "status_change (out ! 0) \<notin> set get_on_map \<union> set get_off_map"
      using get_on_map_facts(3) get_off_map_facts(3) by auto
  qed
  show ?thesis
    using len rows first get_on_map_facts(1,2) get_off_map_facts(1,2) maps_disjoint by blast
qed

lemma join_two_rows_status:
  "join_status (rows two_rows) status_log =
     [(row_at 0 20)\<lparr>time_stamp := Some 0, status_management := Some 0, change_flag := Some 0\<rparr>,
      (row_at 1000 20)\<lparr>time_stamp := Some 1000, status_management := Some 3, change_flag := Some 0\<rparr>]"
  by (simp add: join_status_def merge_left_def two_rows_def status_log_def row_at_def)

lemma join_two_rows_flagged:
  "join_status (rows two_rows) flagged_log =
     [(row_at 0 20)\<lparr>time_stamp := Some 0, status_management := Some 0, change_flag := Some 0\<rparr>,
      (row_at 1000 20)\<lparr>time_stamp := Some 1000, status_management := Some 3, change_flag := Some 1\<rparr>]"
  by (simp add: join_status_def merge_left_def two_rows_def flagged_log_def row_at_def)

lemma str_object_values:
  "str_object None = ''nan''" "str_object (Some 0) = ''0''" "str_object (Some 3) = ''3''"
  "str_float64 None = ''nan''" "str_float64 (Some 0) = ''0.0''" "str_float64 (Some 3) = ''3.0''"
  by (simp_all add: str_object_def str_float64_def str_int_def digit_char_def)

lemma zfill_values:
  "zfill 2 ''0'' = ''00''" "zfill 2 ''3'' = ''03''" "zfill 2 ''nan'' = ''nan''"
  "zfill 2 ''0.0'' = ''0.0''" "zfill 2 ''3.0'' = ''3.0''"
  by (simp_all add: zfill_def)

lemma codes_in_maps:
  "''0003'' \<in> set get_on_map" "''0300'' \<in> set get_off_map" "''0300'' \<notin> set get_on_map"
  "''030.0'' \<notin> set get_on_map" "''030.0'' \<notin> set get_off_map"
  "''00nan'' \<notin> set get_on_map" "''00nan'' \<notin> set get_off_map"
  by (simp_all add: get_on_map_def get_off_map_def)

lemma apply_two_rows_object:
  "rows (apply_event_labels str_object str_object two_rows status_log) =
     [(row_at 0 20)\<lparr>time_stamp := Some 0, status_management := Some 0, change_flag := Some 0,
                     status_change := ''00nan'', event_type := 0\<rparr>,
      (row_at 1000 20)\<lparr>time_stamp := Some 1000, status_management := Some 3, change_flag := Some 0,
                        status_change := ''0300'', event_type := 2\<rparr>]"
  by (simp add: rows_apply_event_labels join_two_rows_status shift1_def status_change_of_def
      str_object_values zfill_values event_type_of_eq codes_in_maps)

lemma apply_two_rows_float:
  "rows (apply_event_labels str_object str_float64 two_rows status_log) =
     [(row_at 0 20)\<lparr>time_stamp := Some 0, status_management := Some 0, change_flag := Some 0,
                     status_change := ''00nan'', event_type := 0\<rparr>,
      (row_at 1000 20)\<lparr>time_stamp := Some 1000, status_management := Some 3, change_flag := Some 0,
                        status_change := ''030.0'', event_type := 0\<rparr>]"
  by (simp add: rows_apply_event_labels join_two_rows_status shift1_def status_change_of_def
      str_object_values zfill_values event_type_of_eq codes_in_maps)

text \<open>
  The theorem at the frame \<open>two_rows\<close> with the log \<open>status_log\<close>: the status goes from
  0 to 3, the code of the second row is \<open>0300\<close>, and its event is 2.
\<close>

theorem transition_code_current_then_previous_witness:
  "(1::nat) < length (join_status (rows two_rows) status_log) \<and>
   status_management (join_status (rows two_rows) status_log ! 1) = Some 3 \<and>
   status_management (join_status (rows two_rows) status_log ! 0) = Some 0 \<and>
   status_change (rows (apply_event_labels str_object str_object two_rows status_log) ! 1) = ''0300'' \<and>
   event_type (rows (apply_event_labels str_object str_object two_rows status_log) ! 1) = 2 \<and>
   3 \<le> length (str_object None) \<and>
   status_change (rows (apply_event_labels str_object str_object two_rows status_log) ! 0)
     \<notin> set get_on_map \<union> set get_off_map"
proof -
  note t = transition_code_current_then_previous[of str_object str_object two_rows status_log]
  have i: "(1::nat) < length (join_status (rows two_rows) status_log)"
    by (simp add: join_two_rows_status)
  have z: "0 < length (join_status (rows two_rows) status_log) \<and> 3 \<le> length (str_object None)"
    by (simp add: join_two_rows_status str_object_values)
  have code: "status_change (rows (apply_event_labels str_object str_object two_rows status_log) ! 1) = ''0300''"
    using t[THEN conjunct2, THEN conjunct1, rule_format, OF i, THEN conjunct1]
    by (simp add: join_two_rows_status str_object_values zfill_values)
  have ev: "event_type (rows (apply_event_labels str_object str_object two_rows status_log) ! 1) = 2"
    using t[THEN conjunct2, THEN conjunct1, rule_format, OF i, THEN conjunct2] code
    by (simp add: codes_in_maps)
  have first: "status_change (rows (apply_event_labels str_object str_object two_rows status_log) ! 0)
     \<notin> set get_on_map \<union> set get_off_map"
    using t[THEN conjunct2, THEN conjunct2, THEN conjunct1, rule_format, OF z] .
  show ?thesis using i z code ev first by (simp add: join_two_rows_status)
qed

text \<open>
  Claim C3 as it is worded fails on the same input. The previous status code 0 followed by
  the current status code 3 is \<open>0003\<close>, a member of the boarding table, so the raw
  event of the second row would be BOARDING. The code of the second row is \<open>0300\<close> and
  its event is ALIGHTING when the shifted column is written as the column itself is; it is
  \<open>030.0\<close> and the event is NONE when the shifted column is written as a float64
  column. In neither case is the event BOARDING.
\<close>

theorem transition_code_order_counterexample:
  "status_management (join_status (rows two_rows) status_log ! 0) = Some 0 \<and>
   status_management (join_status (rows two_rows) status_log ! 1) = Some 3 \<and>
   zfill 2 (str_object (Some 0)) @ zfill 2 (str_object (Some 3)) = ''0003'' \<and>
   ''0003'' \<in> set get_on_map \<and>
   map status_change (rows (apply_event_labels str_object str_object two_rows status_log))
     = [''00nan'', ''0300''] \<and>
   map event_type (rows (apply_event_labels str_object str_object two_rows status_log)) = [0, 2] \<and>
   map status_change (rows (apply_event_labels str_object str_float64 two_rows status_log))
     = [''00nan'', ''030.0''] \<and>
   map event_type (rows (apply_event_labels str_object str_float64 two_rows status_log)) = [0, 0]"
  by (simp add: apply_two_rows_object apply_two_rows_float join_two_rows_status
      str_object_values zfill_values codes_in_maps)

lemma event_type_apply_event_labels:
  assumes "i < length (rows (apply_event_labels sc ss df0 cf))"
  shows "event_type (rows (apply_event_labels sc ss df0 cf) ! i) =
     event_type_of (change_flag (rows (apply_event_labels sc ss df0 cf) ! i))
       (status_change (rows (apply_event_labels sc ss df0 cf) ! i))"
proof -
  from assms have "i < length (join_status (rows df0) cf)"
    by (simp add: length_apply_event_labels)
  from nth_apply_event_labels[OF this, of sc ss] show ?thesis by simp
qed

text \<open>
  Claim C4. On a row whose change flag is 1 and whose transition code is in one of the two
  tables, the raw event is the one the code gives: 2 for a code of the alighting table, 1
  for a code of the boarding table, which is the event the row would have without the
  change flag.
\<close>

theorem status_code_overrides_change_flag:
  fixes str_col str_shifted df0 change_flag_df
  defines "out \<equiv> rows (apply_event_labels str_col str_shifted df0 change_flag_df)"
  shows "\<forall>i<length out.
     change_flag (out ! i) = Some 1 \<and>
     status_change (out ! i) \<in> set get_on_map \<union> set get_off_map \<longrightarrow>
       event_type (out ! i) = (if status_change (out ! i) \<in> set get_off_map then 2 else 1) \<and>
       event_type (out ! i) = event_type_of None (status_change (out ! i))"
proof (intro allI impI)
  fix i
  assume i: "i < length out"
    and h: "change_flag (out ! i) = Some 1 \<and>
            status_change (out ! i) \<in> set get_on_map \<union> set get_off_map"
  from i have "event_type (out ! i) = event_type_of (change_flag (out ! i)) (status_change (out ! i))"
    unfolding out_def by (rule event_type_apply_event_labels)
  with h show "event_type (out ! i) = (if status_change (out ! i) \<in> set get_off_map then 2 else 1) \<and>
       event_type (out ! i) = event_type_of None (status_change (out ! i))"
    by (auto simp: event_type_of_eq)
qed

lemma apply_two_rows_flagged:
  "rows (apply_event_labels str_object str_object two_rows flagged_log) =
     [(row_at 0 20)\<lparr>time_stamp := Some 0, status_management := Some 0, change_flag := Some 0,
                     status_change := ''00nan'', event_type := 0\<rparr>,
      (row_at 1000 20)\<lparr>time_stamp := Some 1000, status_management := Some 3, change_flag := Some 1,
                        status_change := ''0300'', event_type := 2\<rparr>]"
  by (simp add: rows_apply_event_labels join_two_rows_flagged shift1_def status_change_of_def
      str_object_values zfill_values event_type_of_eq codes_in_maps)

text \<open>
  The theorem at \<open>two_rows\<close> with the log \<open>flagged_log\<close>: the change flag of the second
  row is 1, which alone gives the event 1, its code \<open>0300\<close> is in the alighting table,
  and its event is 2.
\<close>

theorem status_code_overrides_change_flag_witness:
  "(1::nat) < length (rows (apply_event_labels str_object str_object two_rows flagged_log)) \<and>
   change_flag (rows (apply_event_labels str_object str_object two_rows flagged_log) ! 1) = Some 1 \<and>
   status_change (rows (apply_event_labels str_object str_object two_rows flagged_log) ! 1) = ''0300'' \<and>
   ''0300'' \<in> set get_on_map \<union> set get_off_map \<and>
   event_type_of (Some 1) ''9999'' = 1 \<and>
   event_type (rows (apply_event_labels str_object str_object two_rows flagged_log) ! 1) = 2"
proof -
  let ?out = "rows (apply_event_labels str_object str_object two_rows flagged_log)"
  have i: "(1::nat) < length ?out" by (simp add: apply_two_rows_flagged)
  have cf: "change_flag (?out ! 1) = Some 1" by (simp add: apply_two_rows_flagged)
  have code: "status_change (?out ! 1) = ''0300''" by (simp add: apply_two_rows_flagged)
  have mem: "''0300'' \<in> set get_on_map \<union> set get_off_map" by (simp add: codes_in_maps)
  have h: "change_flag (?out ! 1) = Some 1 \<and>
           status_change (?out ! 1) \<in> set get_on_map \<union> set get_off_map"
    using cf code mem by simp
  have "event_type (?out ! 1) = (if status_change (?out ! 1) \<in> set get_off_map then 2 else 1)"
    using status_code_overrides_change_flag[of str_object str_object two_rows flagged_log,
        rule_format, OF i h] by simp
  then have ev: "event_type (?out ! 1) = 2" using code by (simp add: codes_in_maps)
  have flag_only: "event_type_of (Some 1) ''9999'' = 1"
    by (simp add: event_type_of_eq get_on_map_def get_off_map_def)
  show ?thesis using i cf code mem ev flag_only by simp
qed

section \<open>Properties of the emitted frames\<close>

lemma drop_columns_eq: "drop_columns cs cols = filter (\<lambda>c. c \<notin> set cs) cols"
  unfolding drop_columns_def by (rule filter_cong) auto

lemma columns_label_stop_segments:
  "columns (label_stop_segments df) =
     filter (\<lambda>c. c \<notin> set columns_to_drop) (assign_column ''label'' (columns df))"
  by (simp add: label_stop_segments_def Let_def drop_columns_eq)

lemma label_not_dropped: "''label'' \<notin> set columns_to_drop"
  by (simp add: columns_to_drop_def)

lemma process_json_file_columns:
  "rows (fst (process_json_file doc)) \<noteq> [] \<Longrightarrow> columns (fst (process_json_file doc)) = base_columns"
  by (auto simp: process_json_file_def empty_frame_def split: document.splits option.splits sum.splits if_splits)

lemma concat_frames_columns:
  assumes "fs \<noteq> []" "\<forall>f\<in>set fs. columns f = cols"
  shows "columns (concat_frames fs) = cols"
  using assms by (cases fs) (simp_all add: concat_frames_def)

lemma columns_identify:
  "columns (identify_stop_segments thr df) =
     filter (\<lambda>c. c \<notin> {''is_low_speed'', ''is_zero_speed''})
       (assign_column ''is_stopped'' (assign_column ''stop_segment''
          (assign_column ''is_zero_speed'' (assign_column ''is_low_speed'' (columns df)))))"
  by (simp add: identify_stop_segments_def Let_def drop_columns_eq)

lemma columns_apply:
  "columns (apply_event_labels sc ss df cf) =
     assign_column ''event_type'' (assign_column ''status_change''
       (assign_column ''timestamp_ms'' (columns df) @
          [''time_stamp'', ''status_management'', ''change_flag'']))"
  by (simp add: apply_event_labels_def Let_def)

lemma pipeline_columns:
  assumes "columns df = base_columns"
  shows "columns (label_stop_segments (apply_event_labels sc ss (identify_stop_segments thr df) cf)) =
     [''timestamp'', ''speed'', ''latitude'', ''longitude'', ''right_blinker'', ''left_blinker'',
      ''is_stopped'', ''label'']"
  by (simp add: columns_label_stop_segments columns_apply columns_identify assms
      base_columns_def assign_column_def columns_to_drop_def)

lemma create_dataset_columns:
  assumes "create_dataset thr sc ss json_files cf = Inr (base_df, accel_df)"
  shows "columns base_df =
     [''timestamp'', ''speed'', ''latitude'', ''longitude'', ''right_blinker'', ''left_blinker'',
      ''is_stopped'', ''label'']"
proof -
  let ?all = "filter (\<lambda>f. rows f \<noteq> []) (map fst (map process_json_file json_files))"
  from assms have ne: "?all \<noteq> []"
    by (auto simp: create_dataset_def Let_def split: if_splits)
  have "\<forall>f\<in>set ?all. columns f = base_columns"
    using process_json_file_columns by auto
  then have c: "columns (concat_frames ?all) = base_columns"
    using concat_frames_columns[OF ne] by blast
  from assms ne have "base_df =
     (label_stop_segments (apply_event_labels sc ss (identify_stop_segments thr (concat_frames ?all)) cf))
       \<lparr>rows := sort_key timestamp (rows (label_stop_segments
          (apply_event_labels sc ss (identify_stop_segments thr (concat_frames ?all)) cf)))\<rparr>"
    by (auto simp: create_dataset_def Let_def split: if_splits)
  then have "columns base_df =
     columns (label_stop_segments (apply_event_labels sc ss (identify_stop_segments thr (concat_frames ?all)) cf))"
    by simp
  then show ?thesis using pipeline_columns[OF c] by simp
qed

text \<open>
  Claim C5, as \<open>label_stop_segments\<close> implements it. Every column of the drop list is
  absent from the frame it returns, and \<open>stop_segment\<close> is on that list; \<open>label\<close> is
  present, and so is every column of the input frame that is not on the list, such as
  \<open>is_stopped\<close>. The base frame that \<open>create_dataset\<close> returns has the columns
  \<open>timestamp\<close>, \<open>speed\<close>, \<open>latitude\<close>, \<open>longitude\<close>, \<open>right_blinker\<close>,
  \<open>left_blinker\<close>, \<open>is_stopped\<close>, \<open>label\<close> and no other.
\<close>

theorem emitted_columns_without_stop_segment:
  "(\<forall>c\<in>set columns_to_drop. c \<notin> set (columns (label_stop_segments df))) \<and>
   ''stop_segment'' \<in> set columns_to_drop \<and>
   ''label'' \<in> set (columns (label_stop_segments df)) \<and>
   (\<forall>c\<in>set (columns df). c \<notin> set columns_to_drop \<longrightarrow> c \<in> set (columns (label_stop_segments df))) \<and>
   ''is_stopped'' \<notin> set columns_to_drop \<and>
   (create_dataset thr str_col str_shifted json_files change_flag_df = Inr (base_df, accel_df) \<longrightarrow>
      columns base_df =
        [''timestamp'', ''speed'', ''latitude'', ''longitude'', ''right_blinker'', ''left_blinker'',
         ''is_stopped'', ''label''])"
proof (intro conjI)
  show "\<forall>c\<in>set columns_to_drop. c \<notin> set (columns (label_stop_segments df))"
    by (simp add: columns_label_stop_segments)
  show "''stop_segment'' \<in> set columns_to_drop" by (simp add: columns_to_drop_def)
  show "''label'' \<in> set (columns (label_stop_segments df))"
    using label_not_dropped by (simp add: columns_label_stop_segments assign_column_def)
  show "\<forall>c\<in>set (columns df). c \<notin> set columns_to_drop \<longrightarrow> c \<in> set (columns (label_stop_segments df))"
    by (simp add: columns_label_stop_segments assign_column_def)
  show "''is_stopped'' \<notin> set columns_to_drop" by (simp add: columns_to_drop_def)
  show "create_dataset thr str_col str_shifted json_files change_flag_df = Inr (base_df, accel_df) \<longrightarrow>
      columns base_df =
        [''timestamp'', ''speed'', ''latitude'', ''longitude'', ''right_blinker'', ''left_blinker'',
         ''is_stopped'', ''label'']"
    using create_dataset_columns by blast
qed

lemma create_dataset_no_speed:
  "\<exists>b a. create_dataset 10 str_object str_object [Document no_speed_capture] status_log = Inr (b, a)"
proof -
  have "rows (fst (process_json_file (Document no_speed_capture))) \<noteq> []"
    by (simp add: process_no_speed_capture)
  then show ?thesis by (simp add: create_dataset_def Let_def)
qed

text \<open>
  The theorem at the frame of raw events of \<open>two_rows\<close> and at the run over the single
  capture \<open>no_speed_capture\<close>.
\<close>

theorem emitted_columns_without_stop_segment_witness:
  "''stop_segment'' \<in> set columns_to_drop \<and>
   ''stop_segment'' \<notin> set (columns (label_stop_segments
      (apply_event_labels str_object str_object two_rows status_log))) \<and>
   ''is_stopped'' \<in> set (columns (apply_event_labels str_object str_object two_rows status_log)) \<and>
   ''is_stopped'' \<notin> set columns_to_drop \<and>
   ''is_stopped'' \<in> set (columns (label_stop_segments
      (apply_event_labels str_object str_object two_rows status_log))) \<and>
   (case create_dataset 10 str_object str_object [Document no_speed_capture] status_log of
      Inl e \<Rightarrow> False
    | Inr (b, a) \<Rightarrow> columns b =
        [''timestamp'', ''speed'', ''latitude'', ''longitude'', ''right_blinker'', ''left_blinker'',
         ''is_stopped'', ''label''])"
proof -
  let ?df = "apply_event_labels str_object str_object two_rows status_log"
  obtain b a where ok: "create_dataset 10 str_object str_object [Document no_speed_capture] status_log = Inr (b, a)"
    using create_dataset_no_speed by blast
  note t = emitted_columns_without_stop_segment[of ?df 10 str_object str_object
      "[Document no_speed_capture]" status_log b a]
  have d: "''stop_segment'' \<in> set columns_to_drop" using t by blast
  then have gone: "''stop_segment'' \<notin> set (columns (label_stop_segments ?df))"
    using t[THEN conjunct1] by blast
  have before: "''is_stopped'' \<in> set (columns ?df)"
    by (simp add: columns_apply two_rows_def base_columns_def assign_column_def)
  have keep: "''is_stopped'' \<notin> set columns_to_drop" using t by blast
  have kept: "''is_stopped'' \<in> set (columns (label_stop_segments ?df))"
    using t[THEN conjunct2, THEN conjunct2, THEN conjunct2, THEN conjunct1] before keep by blast
  have cols: "columns b =
        [''timestamp'', ''speed'', ''latitude'', ''longitude'', ''right_blinker'', ''left_blinker'',
         ''is_stopped'', ''label'']"
    using t ok by blast
  show ?thesis using d gone before keep kept cols ok by simp
qed

text \<open>
  Claim C5 as it is worded fails: the frame of raw events of \<open>two_rows\<close> has the column
  \<open>stop_segment\<close>, and the frame \<open>label_stop_segments\<close> returns for it has not.
\<close>

theorem stop_segment_column_dropped:
  "''stop_segment'' \<in> set (columns (apply_event_labels str_object str_object two_rows status_log)) \<and>
   ''stop_segment'' \<notin> set (columns (label_stop_segments
      (apply_event_labels str_object str_object two_rows status_log))) \<and>
   columns (label_stop_segments (apply_event_labels str_object str_object two_rows status_log)) =
     [''timestamp'', ''speed'', ''latitude'', ''longitude'', ''right_blinker'', ''left_blinker'',
      ''is_stopped'', ''label'']"
  by (simp add: columns_label_stop_segments columns_apply two_rows_def base_columns_def
      assign_column_def columns_to_drop_def)

section \<open>Properties of the split\<close>










lemma exact_floor_ratio_07: "\<lfloor>ratio_07 * real 10\<rfloor> = 6"
  by (simp add: ratio_07_def)



















section \<open>Properties of the labels\<close>

lemma filter_by_position:
  "filter P xs = map ((!) xs) [i \<leftarrow> [0..<length xs]. P (xs ! i)]"
proof -
  have "filter P (map ((!) xs) [0..<length xs]) =
        map ((!) xs) (filter (P \<circ> (!) xs) [0..<length xs])"
    by (simp only: filter_map)
  then show ?thesis by (simp add: map_nth comp_def)
qed

lemma stopped_before_rows:
  "filter (\<lambda>r. is_stopped r = 1) (filter (\<lambda>r. timestamp r < t) df) =
     map ((!) df) (stopped_before df t)"
proof -
  have "filter (\<lambda>r. is_stopped r = 1) (filter (\<lambda>r. timestamp r < t) df) =
        filter (\<lambda>r. is_stopped r = 1 \<and> timestamp r < t) df"
    by (simp add: conj_commute)
  then show ?thesis
    unfolding stopped_before_def
    using filter_by_position[of "\<lambda>r. is_stopped r = 1 \<and> timestamp r < t" df] by simp
qed

lemma stopped_after_rows:
  "filter (\<lambda>r. is_stopped r = 1) (filter (\<lambda>r. timestamp r > t) df) =
     map ((!) df) (stopped_after df t)"
proof -
  have "filter (\<lambda>r. is_stopped r = 1) (filter (\<lambda>r. timestamp r > t) df) =
        filter (\<lambda>r. is_stopped r = 1 \<and> timestamp r > t) df"
    by (simp add: conj_commute)
  then show ?thesis
    unfolding stopped_after_def
    using filter_by_position[of "\<lambda>r. is_stopped r = 1 \<and> timestamp r > t" df] by simp
qed

lemma label_event_boarding:
  assumes "event_type ev = 1"
  shows "label_event ev df =
     (if stopped_before df (timestamp ev) = [] then df
      else if stop_segment (df ! last (stopped_before df (timestamp ev))) > 0 then
        map (\<lambda>r. if stop_segment r = stop_segment (df ! last (stopped_before df (timestamp ev)))
                 then r\<lparr>label := 1\<rparr> else r) df
      else df)"
proof (cases "stopped_before df (timestamp ev) = []")
  case True
  then have "filter (\<lambda>r. is_stopped r = 1) (filter (\<lambda>r. timestamp r < timestamp ev) df) = []"
    unfolding stopped_before_rows by simp
  then show ?thesis using assms True by (simp add: label_event_def Let_def)
next
  case False
  then have ne: "filter (\<lambda>r. is_stopped r = 1) (filter (\<lambda>r. timestamp r < timestamp ev) df) \<noteq> []"
    unfolding stopped_before_rows by simp
  have ne': "filter (\<lambda>r. timestamp r < timestamp ev) df \<noteq> []"
  proof
    assume e: "filter (\<lambda>r. timestamp r < timestamp ev) df = []"
    from ne show False unfolding e by simp
  qed
  have l: "last (filter (\<lambda>r. is_stopped r = 1) (filter (\<lambda>r. timestamp r < timestamp ev) df)) =
           df ! last (stopped_before df (timestamp ev))"
    unfolding stopped_before_rows using False by (simp add: last_map)
  show ?thesis
    using assms False ne ne' l by (simp add: label_event_def Let_def)
qed

lemma label_event_alighting:
  assumes "event_type ev = 2"
  shows "label_event ev df =
     (if stopped_after df (timestamp ev) = [] then df
      else if stop_segment (df ! hd (stopped_after df (timestamp ev))) > 0 then
        map (\<lambda>r. if stop_segment r = stop_segment (df ! hd (stopped_after df (timestamp ev)))
                 then r\<lparr>label := 2\<rparr> else r) df
      else df)"
proof (cases "stopped_after df (timestamp ev) = []")
  case True
  then have "filter (\<lambda>r. is_stopped r = 1) (filter (\<lambda>r. timestamp r > timestamp ev) df) = []"
    unfolding stopped_after_rows by simp
  then show ?thesis using assms True by (simp add: label_event_def Let_def)
next
  case False
  then have ne: "filter (\<lambda>r. is_stopped r = 1) (filter (\<lambda>r. timestamp r > timestamp ev) df) \<noteq> []"
    unfolding stopped_after_rows by simp
  have ne': "filter (\<lambda>r. timestamp r > timestamp ev) df \<noteq> []"
  proof
    assume e: "filter (\<lambda>r. timestamp r > timestamp ev) df = []"
    from ne show False unfolding e by simp
  qed
  have l: "hd (filter (\<lambda>r. is_stopped r = 1) (filter (\<lambda>r. timestamp r > timestamp ev) df)) =
           df ! hd (stopped_after df (timestamp ev))"
    unfolding stopped_after_rows using False by (simp add: hd_map)
  show ?thesis
    using assms False ne ne' l by (simp add: label_event_def Let_def)
qed

lemma label_event_target:
  "label_event ev df =
     (case event_target df ev of
        None \<Rightarrow> df
      | Some g \<Rightarrow> map (\<lambda>r. if stop_segment r = g then r\<lparr>label := event_type ev\<rparr> else r) df)"
proof -
  consider "event_type ev = 1" | "event_type ev = 2" | "event_type ev \<noteq> 1 \<and> event_type ev \<noteq> 2"
    by blast
  then show ?thesis
  proof cases
    case 1
    then show ?thesis by (simp add: label_event_boarding event_target_def Let_def)
  next
    case 2
    then show ?thesis by (simp add: label_event_alighting event_target_def Let_def)
  next
    case 3
    then show ?thesis by (simp add: label_event_def event_target_def Let_def)
  qed
qed

lemma same_but_labels_nth:
  assumes "same_but_labels df df'" "i < length df"
  shows "df' ! i = (df ! i)\<lparr>label := label (df' ! i)\<rparr>"
proof -
  from assms(1) have "list_all2 (\<lambda>r r'. r' = r\<lparr>label := label r'\<rparr>) df df'"
    unfolding same_but_labels_def by (rule conjunct2)
  from list_all2_nthD[OF this assms(2)] show ?thesis .
qed

lemma same_but_labels_fields:
  assumes "same_but_labels df df'" "i < length df"
  shows "timestamp (df' ! i) = timestamp (df ! i)"
    and "is_stopped (df' ! i) = is_stopped (df ! i)"
    and "stop_segment (df' ! i) = stop_segment (df ! i)"
proof -
  note e = same_but_labels_nth[OF assms]
  show "timestamp (df' ! i) = timestamp (df ! i)" by (subst e) simp
  show "is_stopped (df' ! i) = is_stopped (df ! i)" by (subst e) simp
  show "stop_segment (df' ! i) = stop_segment (df ! i)" by (subst e) simp
qed

lemma same_but_labels_length: "same_but_labels df df' \<Longrightarrow> length df' = length df"
  unfolding same_but_labels_def by (rule conjunct1)

lemma same_but_labels_refl: "same_but_labels df df"
  unfolding same_but_labels_def by (simp add: list_all2_same)

lemma same_but_labels_stopped:
  assumes "same_but_labels df df'"
  shows "stopped_before df' t = stopped_before df t" and "stopped_after df' t = stopped_after df t"
proof -
  have len: "length df' = length df" using assms by (rule same_but_labels_length)
  show "stopped_before df' t = stopped_before df t"
    unfolding stopped_before_def len
    by (rule filter_cong) (auto simp: same_but_labels_fields[OF assms])
  show "stopped_after df' t = stopped_after df t"
    unfolding stopped_after_def len
    by (rule filter_cong) (auto simp: same_but_labels_fields[OF assms])
qed

lemma stopped_before_bound: "i \<in> set (stopped_before df t) \<Longrightarrow> i < length df"
  by (simp add: stopped_before_def)

lemma stopped_after_bound: "i \<in> set (stopped_after df t) \<Longrightarrow> i < length df"
  by (simp add: stopped_after_def)

lemma same_but_labels_target:
  assumes "same_but_labels df df'"
  shows "event_target df' ev = event_target df ev"
proof -
  note st = same_but_labels_stopped[OF assms]
  have b: "stopped_before df (timestamp ev) \<noteq> [] \<Longrightarrow>
      stop_segment (df' ! last (stopped_before df (timestamp ev))) =
      stop_segment (df ! last (stopped_before df (timestamp ev)))"
    using same_but_labels_fields(3)[OF assms] stopped_before_bound[of _ df "timestamp ev"] last_in_set
    by blast
  have a: "stopped_after df (timestamp ev) \<noteq> [] \<Longrightarrow>
      stop_segment (df' ! hd (stopped_after df (timestamp ev))) =
      stop_segment (df ! hd (stopped_after df (timestamp ev)))"
    using same_but_labels_fields(3)[OF assms] stopped_after_bound[of _ df "timestamp ev"] hd_in_set
    by blast
  show ?thesis
    unfolding event_target_def st using a b by (simp add: Let_def)
qed

lemma same_but_labels_relabel:
  assumes "same_but_labels df df'"
  shows "same_but_labels df (map (\<lambda>r. if stop_segment r = g then r\<lparr>label := l\<rparr> else r) df')"
proof -
  let ?f = "\<lambda>r. if stop_segment r = g then r\<lparr>label := l\<rparr> else r"
  have len: "length df' = length df" using assms by (rule same_but_labels_length)
  have "list_all2 (\<lambda>r r'. r' = r\<lparr>label := label r'\<rparr>) df (map ?f df')"
  proof (rule list_all2_all_nthI)
    show "length df = length (map ?f df')" using len by simp
  next
    fix i assume i: "i < length df"
    note e = same_but_labels_nth[OF assms i]
    have nth: "map ?f df' ! i = ?f (df' ! i)" using i len by simp
    show "map ?f df' ! i = (df ! i)\<lparr>label := label (map ?f df' ! i)\<rparr>"
    proof (cases "stop_segment (df' ! i) = g")
      case True
      have h: "(df' ! i)\<lparr>label := l\<rparr> = (df ! i)\<lparr>label := l\<rparr>" by (subst e) simp
      show ?thesis unfolding nth if_P[OF True] using h by simp
    next
      case False
      show ?thesis unfolding nth if_not_P[OF False] by (rule e)
    qed
  qed
  then show ?thesis
    unfolding same_but_labels_def using len by simp
qed

lemma same_but_labels_step:
  assumes "same_but_labels df df'"
  shows "same_but_labels df (label_event ev df')"
  using assms same_but_labels_relabel[OF assms]
  by (simp add: label_event_target split: option.splits)

lemma fold_label_event_snoc:
  "fold label_event (evs @ [ev]) df = label_event ev (fold label_event evs df)"
  by simp

lemma fold_label_event:
  "same_but_labels df (fold label_event evs df) \<and>
   (\<forall>i<length df. label (fold label_event evs df ! i) =
      (if events_on df evs (stop_segment (df ! i)) = [] then label (df ! i)
       else event_type (last (events_on df evs (stop_segment (df ! i))))))"
proof (induction evs rule: rev_induct)
  case Nil
  show ?case by (simp add: same_but_labels_refl events_on_def)
next
  case (snoc ev evs)
  let ?out = "fold label_event evs df"
  from snoc have same: "same_but_labels df ?out"
    and lab: "\<And>i. i < length df \<Longrightarrow> label (?out ! i) =
      (if events_on df evs (stop_segment (df ! i)) = [] then label (df ! i)
       else event_type (last (events_on df evs (stop_segment (df ! i)))))"
    by simp_all
  have tgt: "event_target ?out ev = event_target df ev"
    using same by (rule same_but_labels_target)
  have len: "length ?out = length df" using same by (rule same_but_labels_length)
  have step: "fold label_event (evs @ [ev]) df =
     (case event_target df ev of
        None \<Rightarrow> ?out
      | Some g \<Rightarrow> map (\<lambda>r. if stop_segment r = g then r\<lparr>label := event_type ev\<rparr> else r) ?out)"
    unfolding fold_label_event_snoc label_event_target tgt ..
  have s1: "same_but_labels df (fold label_event (evs @ [ev]) df)"
    unfolding fold_label_event_snoc using same by (rule same_but_labels_step)
  have s2: "\<forall>i<length df. label (fold label_event (evs @ [ev]) df ! i) =
      (if events_on df (evs @ [ev]) (stop_segment (df ! i)) = [] then label (df ! i)
       else event_type (last (events_on df (evs @ [ev]) (stop_segment (df ! i)))))"
  proof (intro allI impI)
    fix i assume i: "i < length df"
    have seg: "stop_segment (?out ! i) = stop_segment (df ! i)"
      using same_but_labels_fields(3)[OF same i] .
    show "label (fold label_event (evs @ [ev]) df ! i) =
      (if events_on df (evs @ [ev]) (stop_segment (df ! i)) = [] then label (df ! i)
       else event_type (last (events_on df (evs @ [ev]) (stop_segment (df ! i)))))"
    proof (cases "event_target df ev = Some (stop_segment (df ! i))")
      case True
      then have "fold label_event (evs @ [ev]) df ! i = (?out ! i)\<lparr>label := event_type ev\<rparr>"
        unfolding step using i len seg by simp
      moreover have "events_on df (evs @ [ev]) (stop_segment (df ! i)) =
                     events_on df evs (stop_segment (df ! i)) @ [ev]"
        using True by (simp add: events_on_def)
      ultimately show ?thesis by simp
    next
      case False
      then have "fold label_event (evs @ [ev]) df ! i = ?out ! i"
        unfolding step using i len seg by (cases "event_target df ev") simp_all
      moreover have "events_on df (evs @ [ev]) (stop_segment (df ! i)) =
                     events_on df evs (stop_segment (df ! i))"
        using False by (simp add: events_on_def)
      ultimately show ?thesis using lab[OF i] by simp
    qed
  qed
  show ?case using s1 s2 by simp
qed

lemma sorted_le_last: "sorted xs \<Longrightarrow> x \<in> set xs \<Longrightarrow> x \<le> last (xs :: nat list)"
  by (induction xs) auto

lemma sorted_hd_le: "sorted xs \<Longrightarrow> x \<in> set xs \<Longrightarrow> hd (xs :: nat list) \<le> x"
  by (cases xs) auto

lemma last_filter_upt:
  assumes "[i \<leftarrow> [0..<n]. P i] \<noteq> []"
  shows "last [i \<leftarrow> [0..<n]. P i] < n" and "P (last [i \<leftarrow> [0..<n]. P i])"
    and "\<And>j. j < n \<Longrightarrow> P j \<Longrightarrow> j \<le> last [i \<leftarrow> [0..<n]. P i]"
proof -
  have "last [i \<leftarrow> [0..<n]. P i] \<in> set [i \<leftarrow> [0..<n]. P i]"
    using assms by (rule last_in_set)
  then show "last [i \<leftarrow> [0..<n]. P i] < n" and "P (last [i \<leftarrow> [0..<n]. P i])" by simp_all
  have srt: "sorted [i \<leftarrow> [0..<n]. P i]" by (rule sorted_wrt_filter) simp
  fix j assume "j < n" "P j"
  then have "j \<in> set [i \<leftarrow> [0..<n]. P i]" by simp
  then show "j \<le> last [i \<leftarrow> [0..<n]. P i]" using srt by (rule sorted_le_last[rotated])
qed

lemma hd_filter_upt:
  assumes "[i \<leftarrow> [0..<n]. P i] \<noteq> []"
  shows "hd [i \<leftarrow> [0..<n]. P i] < n" and "P (hd [i \<leftarrow> [0..<n]. P i])"
    and "\<And>j. j < n \<Longrightarrow> P j \<Longrightarrow> hd [i \<leftarrow> [0..<n]. P i] \<le> j"
proof -
  have "hd [i \<leftarrow> [0..<n]. P i] \<in> set [i \<leftarrow> [0..<n]. P i]"
    using assms by (rule hd_in_set)
  then show "hd [i \<leftarrow> [0..<n]. P i] < n" and "P (hd [i \<leftarrow> [0..<n]. P i])" by simp_all
  have srt: "sorted [i \<leftarrow> [0..<n]. P i]" by (rule sorted_wrt_filter) simp
  fix j assume "j < n" "P j"
  then have "j \<in> set [i \<leftarrow> [0..<n]. P i]" by simp
  then show "hd [i \<leftarrow> [0..<n]. P i] \<le> j" using srt by (rule sorted_hd_le[rotated])
qed

lemma filter_upt_nonempty: "j < n \<Longrightarrow> P j \<Longrightarrow> [i \<leftarrow> [0..<n]. P i] \<noteq> []"
  by (auto simp: filter_empty_conv)

lemma event_target_boarding_iff:
  assumes "event_type ev = 1"
  shows "event_target df ev = Some g \<longleftrightarrow>
     0 < g \<and> (\<exists>i<length df. is_stopped (df ! i) = 1 \<and> timestamp (df ! i) < timestamp ev \<and>
        stop_segment (df ! i) = g \<and>
        (\<forall>j<length df. is_stopped (df ! j) = 1 \<and> timestamp (df ! j) < timestamp ev \<longrightarrow> j \<le> i))"
    (is "?l \<longleftrightarrow> ?r")
proof
  let ?P = "\<lambda>i. is_stopped (df ! i) = 1 \<and> timestamp (df ! i) < timestamp ev"
  let ?is = "[i \<leftarrow> [0..<length df]. ?P i]"
  assume l: ?l
  then have ne: "?is \<noteq> []" and g: "stop_segment (df ! last ?is) = g" "0 < g"
    using assms by (auto simp: event_target_def stopped_before_def Let_def split: if_splits)
  note k = last_filter_upt[where n = "length df" and P = ?P, OF ne]
  show ?r using g k by blast
next
  let ?P = "\<lambda>i. is_stopped (df ! i) = 1 \<and> timestamp (df ! i) < timestamp ev"
  let ?is = "[i \<leftarrow> [0..<length df]. ?P i]"
  assume r: ?r
  then obtain i where i: "i < length df" "?P i" "stop_segment (df ! i) = g" "0 < g"
    and mx: "\<And>j. j < length df \<Longrightarrow> ?P j \<Longrightarrow> j \<le> i" by blast
  have ne: "?is \<noteq> []" using filter_upt_nonempty[of i "length df" ?P] i by blast
  note k = last_filter_upt[where n = "length df" and P = ?P, OF ne]
  have "last ?is \<le> i" using mx k(1,2) by blast
  moreover have "i \<le> last ?is" using k(3) i by blast
  ultimately have "last ?is = i" by simp
  then show ?l using assms ne i by (simp add: event_target_def stopped_before_def Let_def)
qed

lemma event_target_alighting_iff:
  assumes "event_type ev = 2"
  shows "event_target df ev = Some g \<longleftrightarrow>
     0 < g \<and> (\<exists>i<length df. is_stopped (df ! i) = 1 \<and> timestamp ev < timestamp (df ! i) \<and>
        stop_segment (df ! i) = g \<and>
        (\<forall>j<length df. is_stopped (df ! j) = 1 \<and> timestamp ev < timestamp (df ! j) \<longrightarrow> i \<le> j))"
    (is "?l \<longleftrightarrow> ?r")
proof
  let ?P = "\<lambda>i. is_stopped (df ! i) = 1 \<and> timestamp ev < timestamp (df ! i)"
  let ?is = "[i \<leftarrow> [0..<length df]. ?P i]"
  assume l: ?l
  then have ne: "?is \<noteq> []" and g: "stop_segment (df ! hd ?is) = g" "0 < g"
    using assms by (auto simp: event_target_def stopped_after_def Let_def split: if_splits)
  note k = hd_filter_upt[where n = "length df" and P = ?P, OF ne]
  show ?r using g k by blast
next
  let ?P = "\<lambda>i. is_stopped (df ! i) = 1 \<and> timestamp ev < timestamp (df ! i)"
  let ?is = "[i \<leftarrow> [0..<length df]. ?P i]"
  assume r: ?r
  then obtain i where i: "i < length df" "?P i" "stop_segment (df ! i) = g" "0 < g"
    and mn: "\<And>j. j < length df \<Longrightarrow> ?P j \<Longrightarrow> i \<le> j" by blast
  have ne: "?is \<noteq> []" using filter_upt_nonempty[of i "length df" ?P] i by blast
  note k = hd_filter_upt[where n = "length df" and P = ?P, OF ne]
  have "i \<le> hd ?is" using mn k(1,2) by blast
  moreover have "hd ?is \<le> i" using k(3) i by blast
  ultimately have "hd ?is = i" by simp
  then show ?l using assms ne i by (simp add: event_target_def stopped_after_def Let_def)
qed

lemma event_target_positive: "event_target df ev = Some g \<Longrightarrow> 0 < g"
  by (auto simp: event_target_def Let_def split: if_splits)

lemma events_on_nonpositive: "g \<le> 0 \<Longrightarrow> events_on df evs g = []"
  using event_target_positive[of df _ g] by (auto simp: events_on_def filter_empty_conv)

lemma init_label_zero: "r \<in> set (init_label rs) \<Longrightarrow> label r = 0"
  by (auto simp: init_label_def)

lemma init_label_sorted: "sorted (map timestamp (init_label rs))"
  by (simp add: init_label_def)

lemma rows_label_stop_segments:
  "rows (label_stop_segments df0) =
     fold label_event (filter (\<lambda>r. event_type r > 0) (init_label (rows df0))) (init_label (rows df0))"
  by (simp add: label_stop_segments_def Let_def)

lemma label_event_no_target: "event_target df ev = None \<Longrightarrow> label_event ev df = df"
  by (simp add: label_event_target)

text \<open>
  Claim C2, as \<open>label_stop_segments\<close> implements it. Let \<open>df\<close> be the input frame sorted by
  timestamp, rows of equal timestamp in their input order, with every label 0, and let the
  events be the rows of \<open>df\<close> with a raw event, in that order. The frame returned has the rows
  of \<open>df\<close> with nothing but the labels changed. An event is attached to at most one segment:
  a boarding event to the segment of the last stopped row whose timestamp is strictly earlier
  than the event's, an alighting event to the segment of the first stopped row whose
  timestamp is strictly later, and to none when there is no such row or the segment id of
  that row is not positive; an event attached to no segment leaves every frame as it is. The
  label of a row is the raw event of the last event attached to the segment of the row, and
  0 when no event is attached to it; in particular a row that belongs to no segment keeps
  the label 0.
\<close>

theorem labels_follow_last_event:
  fixes df0 :: frame
  defines "df \<equiv> init_label (rows df0)"
  defines "events \<equiv> filter (\<lambda>r. event_type r > 0) df"
  defines "out \<equiv> rows (label_stop_segments df0)"
  shows "length out = length df \<and> sorted (map timestamp df) \<and>
    (\<forall>i<length df.
       out ! i = (df ! i)\<lparr>label := label (out ! i)\<rparr> \<and> label (df ! i) = 0 \<and>
       label (out ! i) =
         (if events_on df events (stop_segment (df ! i)) = [] then 0
          else event_type (last (events_on df events (stop_segment (df ! i)))))) \<and>
    (\<forall>i<length df. stop_segment (df ! i) \<le> 0 \<longrightarrow> label (out ! i) = 0) \<and>
    (\<forall>ev g. event_type ev = 1 \<longrightarrow>
       (event_target df ev = Some g \<longleftrightarrow>
          0 < g \<and> (\<exists>i<length df. is_stopped (df ! i) = 1 \<and> timestamp (df ! i) < timestamp ev \<and>
             stop_segment (df ! i) = g \<and>
             (\<forall>j<length df. is_stopped (df ! j) = 1 \<and> timestamp (df ! j) < timestamp ev
                \<longrightarrow> j \<le> i)))) \<and>
    (\<forall>ev g. event_type ev = 2 \<longrightarrow>
       (event_target df ev = Some g \<longleftrightarrow>
          0 < g \<and> (\<exists>i<length df. is_stopped (df ! i) = 1 \<and> timestamp ev < timestamp (df ! i) \<and>
             stop_segment (df ! i) = g \<and>
             (\<forall>j<length df. is_stopped (df ! j) = 1 \<and> timestamp ev < timestamp (df ! j)
                \<longrightarrow> i \<le> j)))) \<and>
    (\<forall>ev d. event_target d ev = None \<longrightarrow> label_event ev d = d)"
proof -
  have out: "out = fold label_event events df"
    unfolding out_def events_def df_def by (rule rows_label_stop_segments)
  note f = fold_label_event[of df events]
  have same: "same_but_labels df out" unfolding out using f by simp
  have len: "length out = length df" using same by (rule same_but_labels_length)
  have srt: "sorted (map timestamp df)" unfolding df_def by (rule init_label_sorted)
  have zero: "\<And>i. i < length df \<Longrightarrow> label (df ! i) = 0"
    unfolding df_def using init_label_zero nth_mem by blast
  have lab: "\<And>i. i < length df \<Longrightarrow> label (out ! i) =
         (if events_on df events (stop_segment (df ! i)) = [] then 0
          else event_type (last (events_on df events (stop_segment (df ! i)))))"
    unfolding out using f zero by simp
  have rows: "\<forall>i<length df.
       out ! i = (df ! i)\<lparr>label := label (out ! i)\<rparr> \<and> label (df ! i) = 0 \<and>
       label (out ! i) =
         (if events_on df events (stop_segment (df ! i)) = [] then 0
          else event_type (last (events_on df events (stop_segment (df ! i)))))"
    using same_but_labels_nth[OF same] zero lab by blast
  have none: "\<forall>i<length df. stop_segment (df ! i) \<le> 0 \<longrightarrow> label (out ! i) = 0"
    using lab events_on_nonpositive by simp
  show ?thesis
    using len srt rows none event_target_boarding_iff[of _ df] event_target_alighting_iff[of _ df]
      label_event_no_target
    by blast
qed

lemma event_row_sel:
  "timestamp (event_row t g e) = t" "stop_segment (event_row t g e) = g"
  "is_stopped (event_row t g e) = (if g > 0 then 1 else 0)" "event_type (event_row t g e) = e"
  "label (event_row t g e) = 0" "(event_row t g e)\<lparr>label := 0\<rparr> = event_row t g e"
  by (simp_all add: event_row_def row_at_def)

lemma init_label_trip_rows: "init_label (rows trip_rows) = rows trip_rows"
  by (simp add: init_label_def trip_rows_def event_row_sel)

lemma init_label_inside_rows: "init_label (rows inside_rows) = rows inside_rows"
  by (simp add: init_label_def inside_rows_def event_row_sel)

lemma trip_rows_targets:
  "event_target (rows trip_rows) (event_row 20000 0 1) = Some 1"
  "event_target (rows trip_rows) (event_row 50000 0 2) = Some 2"
  by (simp_all add: event_target_def stopped_before_def stopped_after_def trip_rows_def
      event_row_sel upt_rec Let_def)

lemma trip_rows_events:
  "filter (\<lambda>r. event_type r > 0) (rows trip_rows) = [event_row 20000 0 1, event_row 50000 0 2]"
  by (simp add: trip_rows_def event_row_sel)

lemma inside_rows_target:
  "event_target (rows inside_rows) (event_row 10000 1 1) = Some 1"
  by (simp add: event_target_def stopped_before_def inside_rows_def event_row_sel upt_rec Let_def)

lemma inside_rows_events:
  "filter (\<lambda>r. event_type r > 0) (rows inside_rows) = [event_row 10000 1 1]"
  by (simp add: inside_rows_def event_row_sel)

lemma labels_trip_rows:
  "map label (rows (label_stop_segments trip_rows)) = [1, 1, 0, 0, 2, 2]"
  by (simp add: rows_label_stop_segments init_label_trip_rows trip_rows_events label_event_target)
     (simp add: event_target_def stopped_before_def stopped_after_def trip_rows_def
        event_row_sel upt_rec Let_def)

lemma labels_inside_rows:
  "map label (rows (label_stop_segments inside_rows)) = [1, 1, 1]"
  by (simp add: rows_label_stop_segments init_label_inside_rows inside_rows_events label_event_target
      inside_rows_target)
     (simp add: inside_rows_def event_row_sel)

lemma spec_boarding_inside:
  "segment_end (rows inside_rows) 1 = 20000"
  "spec_boarding_segment (rows inside_rows) 10000 = None"
  by (simp_all add: spec_boarding_segment_def segment_end_def inside_rows_def event_row_sel)

lemma spec_boarding_trip:
  "spec_boarding_segment (rows trip_rows) 20000 = Some 1"
  by (simp add: spec_boarding_segment_def segment_end_def trip_rows_def event_row_sel)


lemma trip_rows_on:
  "events_on (rows trip_rows) [event_row 20000 0 1, event_row 50000 0 2] 1 = [event_row 20000 0 1]"
  "events_on (rows trip_rows) [event_row 20000 0 1, event_row 50000 0 2] 2 = [event_row 50000 0 2]"
  "events_on (rows trip_rows) [event_row 20000 0 1, event_row 50000 0 2] 0 = []"
  by (simp_all add: events_on_def trip_rows_targets)

lemma trip_rows_nth:
  "length (rows trip_rows) = 6"
  "rows trip_rows ! 0 = event_row 0 1 0" "rows trip_rows ! 1 = event_row 12000 1 0"
  "rows trip_rows ! Suc 0 = event_row 12000 1 0"
  "rows trip_rows ! 2 = event_row 20000 0 1" "rows trip_rows ! 3 = event_row 50000 0 2"
  "rows trip_rows ! 4 = event_row 60000 2 0" "rows trip_rows ! 5 = event_row 72000 2 0"
  by (simp_all add: trip_rows_def)

lemma trip_rows_last_before:
  "\<exists>i<length (rows trip_rows). is_stopped (rows trip_rows ! i) = 1 \<and>
      timestamp (rows trip_rows ! i) < timestamp (event_row 20000 0 1) \<and>
      stop_segment (rows trip_rows ! i) = 1 \<and>
      (\<forall>j<length (rows trip_rows). is_stopped (rows trip_rows ! j) = 1 \<and>
          timestamp (rows trip_rows ! j) < timestamp (event_row 20000 0 1) \<longrightarrow> j \<le> i)"
proof (intro exI[of _ 1] conjI allI impI)
  fix j
  assume j: "j < length (rows trip_rows)"
    and s: "is_stopped (rows trip_rows ! j) = 1 \<and>
          timestamp (rows trip_rows ! j) < timestamp (event_row 20000 0 1)"
  from j have "j = 0 \<or> j = 1 \<or> j = 2 \<or> j = 3 \<or> j = 4 \<or> j = 5"
    unfolding trip_rows_nth by arith
  then show "j \<le> 1" using s by (auto simp: trip_rows_nth event_row_sel)
qed (simp_all add: trip_rows_nth event_row_sel)

lemma trip_rows_first_after:
  "\<exists>i<length (rows trip_rows). is_stopped (rows trip_rows ! i) = 1 \<and>
      timestamp (event_row 50000 0 2) < timestamp (rows trip_rows ! i) \<and>
      stop_segment (rows trip_rows ! i) = 2 \<and>
      (\<forall>j<length (rows trip_rows). is_stopped (rows trip_rows ! j) = 1 \<and>
          timestamp (event_row 50000 0 2) < timestamp (rows trip_rows ! j) \<longrightarrow> i \<le> j)"
proof (intro exI[of _ 4] conjI allI impI)
  fix j
  assume j: "j < length (rows trip_rows)"
    and s: "is_stopped (rows trip_rows ! j) = 1 \<and>
          timestamp (event_row 50000 0 2) < timestamp (rows trip_rows ! j)"
  from j have "j = 0 \<or> j = 1 \<or> j = 2 \<or> j = 3 \<or> j = 4 \<or> j = 5"
    unfolding trip_rows_nth by arith
  then show "4 \<le> j" using s by (auto simp: trip_rows_nth event_row_sel)
qed (simp_all add: trip_rows_nth event_row_sel)

lemma no_stop_before_start:
  "event_target (rows trip_rows) (event_row 0 0 1) = None"
  by (simp add: event_target_def stopped_before_def trip_rows_def event_row_sel upt_rec)

text \<open>
  The theorem at \<open>trip_rows\<close>: the boarding event, 8 seconds after the end of segment 1, is
  attached to segment 1 and the alighting event, 10 seconds before the start of segment 2,
  to segment 2; the rows of segment 1 get the label 1, those of segment 2 the label 2, and
  the two event rows, which belong to no segment, keep the label 0. A boarding event at the
  time of the first row has no stopped row before it and changes nothing.
\<close>

theorem labels_follow_last_event_witness:
  "init_label (rows trip_rows) = rows trip_rows \<and>
   map timestamp (rows trip_rows) = [0, 12000, 20000, 50000, 60000, 72000] \<and>
   map stop_segment (rows trip_rows) = [1, 1, 0, 0, 2, 2] \<and>
   map event_type (rows trip_rows) = [0, 0, 1, 2, 0, 0] \<and>
   event_target (rows trip_rows) (rows trip_rows ! 2) = Some 1 \<and>
   event_target (rows trip_rows) (rows trip_rows ! 3) = Some 2 \<and>
   length (rows (label_stop_segments trip_rows)) = 6 \<and>
   label (rows (label_stop_segments trip_rows) ! 0) = 1 \<and>
   label (rows (label_stop_segments trip_rows) ! 1) = 1 \<and>
   label (rows (label_stop_segments trip_rows) ! 2) = 0 \<and>
   label (rows (label_stop_segments trip_rows) ! 3) = 0 \<and>
   label (rows (label_stop_segments trip_rows) ! 4) = 2 \<and>
   label (rows (label_stop_segments trip_rows) ! 5) = 2 \<and>
   label_event (event_row 0 0 1) (rows trip_rows) = rows trip_rows"
proof -
  note t = labels_follow_last_event[of trip_rows, unfolded init_label_trip_rows trip_rows_events]
  note len = t[THEN conjunct1]
  note lab = t[THEN conjunct2, THEN conjunct2, THEN conjunct1, rule_format,
      THEN conjunct2, THEN conjunct2]
  note off = t[THEN conjunct2, THEN conjunct2, THEN conjunct2, THEN conjunct1, rule_format]
  note brd = t[THEN conjunct2, THEN conjunct2, THEN conjunct2, THEN conjunct2, THEN conjunct1,
      rule_format, of "event_row 20000 0 1" 1]
  note alt = t[THEN conjunct2, THEN conjunct2, THEN conjunct2, THEN conjunct2, THEN conjunct2,
      THEN conjunct1, rule_format, of "event_row 50000 0 2" 2]
  note non = t[THEN conjunct2, THEN conjunct2, THEN conjunct2, THEN conjunct2, THEN conjunct2,
      THEN conjunct2, rule_format, of "rows trip_rows" "event_row 0 0 1"]
  have cols: "map timestamp (rows trip_rows) = [0, 12000, 20000, 50000, 60000, 72000]"
    "map stop_segment (rows trip_rows) = [1, 1, 0, 0, 2, 2]"
    "map event_type (rows trip_rows) = [0, 0, 1, 2, 0, 0]"
    by (simp_all add: trip_rows_def event_row_sel)
  have b: "event_target (rows trip_rows) (rows trip_rows ! 2) = Some 1"
    using brd trip_rows_last_before by (simp add: trip_rows_nth event_row_sel)
  have a: "event_target (rows trip_rows) (rows trip_rows ! 3) = Some 2"
    using alt trip_rows_first_after by (simp add: trip_rows_nth event_row_sel)
  have l: "length (rows (label_stop_segments trip_rows)) = 6"
    using len by (simp add: trip_rows_nth)
  have l0: "label (rows (label_stop_segments trip_rows) ! 0) = 1"
    using lab[of 0] by (simp add: trip_rows_nth event_row_sel trip_rows_on)
  have l1: "label (rows (label_stop_segments trip_rows) ! 1) = 1"
    using lab[of 1] by (simp add: trip_rows_nth event_row_sel trip_rows_on)
  have l2: "label (rows (label_stop_segments trip_rows) ! 2) = 0"
    using off[of 2] by (simp add: trip_rows_nth event_row_sel)
  have l3: "label (rows (label_stop_segments trip_rows) ! 3) = 0"
    using off[of 3] by (simp add: trip_rows_nth event_row_sel)
  have l4: "label (rows (label_stop_segments trip_rows) ! 4) = 2"
    using lab[of 4] by (simp add: trip_rows_nth event_row_sel trip_rows_on)
  have l5: "label (rows (label_stop_segments trip_rows) ! 5) = 2"
    using lab[of 5] by (simp add: trip_rows_nth event_row_sel trip_rows_on)
  have n: "label_event (event_row 0 0 1) (rows trip_rows) = rows trip_rows"
    using non no_stop_before_start by simp
  show ?thesis
    using init_label_trip_rows cols b a l l0 l1 l2 l3 l4 l5 n by simp
qed

text \<open>
  Claim C2 as it is worded fails at \<open>inside_rows\<close>: the boarding event lies inside segment
  1, which ends 10 seconds after it, so no segment ends at or before the event and no label
  should change; \<open>label_stop_segments\<close> gives the label 1 to the three rows of segment 1,
  because the first row of the segment is a stopped row with an earlier timestamp.
\<close>

theorem boarding_inside_segment_labels_it:
  "map timestamp (rows inside_rows) = [0, 10000, 20000] \<and>
   map stop_segment (rows inside_rows) = [1, 1, 1] \<and>
   map is_stopped (rows inside_rows) = [1, 1, 1] \<and>
   map event_type (rows inside_rows) = [0, 1, 0] \<and>
   segment_end (rows inside_rows) 1 = 20000 \<and>
   spec_boarding_segment (rows inside_rows) 10000 = None \<and>
   map label (rows (label_stop_segments inside_rows)) = [1, 1, 1]"
proof -
  have "map timestamp (rows inside_rows) = [0, 10000, 20000]"
    "map stop_segment (rows inside_rows) = [1, 1, 1]"
    "map is_stopped (rows inside_rows) = [1, 1, 1]"
    "map event_type (rows inside_rows) = [0, 1, 0]"
    by (simp_all add: inside_rows_def event_row_sel)
  then show ?thesis
    using spec_boarding_inside labels_inside_rows by simp
qed

end
